theory Spec2Isabelle
  imports Main "HOL-Library.Word" "HOL-Library.Sublist"
begin

unbundle bit_operations_syntax

section \<open>Machine representation\<close>

text \<open>
  The message codec copies objects with \<^verbatim>\<open>std::memcpy\<close>, so what travels is the object
  representation of a value: its bytes in host order. Integers are words of their C++
  width; their representation is given for both byte orders, and every function that
  depends on it takes the host's byte order as a parameter.
\<close>

type_synonym byte = "8 word"

datatype endian = LittleEndian | BigEndian

fun le_bytes :: "nat \<Rightarrow> 'a::len word \<Rightarrow> byte list" where
  "le_bytes 0 w = []"
| "le_bytes (Suc n) w = ucast w # le_bytes n (drop_bit 8 w)"

fun le_word :: "byte list \<Rightarrow> 'a::len word" where
  "le_word [] = 0"
| "le_word (b # bs) = ucast b OR push_bit 8 (le_word bs)"

text \<open>\<open>obj_rep host n w\<close>: the \<open>n\<close> bytes of the integer \<open>w\<close> as \<^verbatim>\<open>memcpy\<close> reads them;
  \<open>obj_val host bs\<close>: the integer whose representation is \<open>bs\<close>.\<close>

definition obj_rep :: "endian \<Rightarrow> nat \<Rightarrow> 'a::len word \<Rightarrow> byte list" where
  "obj_rep host n w = (case host of LittleEndian \<Rightarrow> le_bytes n w | BigEndian \<Rightarrow> rev (le_bytes n w))"

definition obj_val :: "endian \<Rightarrow> byte list \<Rightarrow> 'a::len word" where
  "obj_val host bs = (case host of LittleEndian \<Rightarrow> le_word bs | BigEndian \<Rightarrow> le_word (rev bs))"

text \<open>\<^verbatim>\<open>size_t\<close> is 64 bits wide; its addition wraps.\<close>

definition size_add :: "nat \<Rightarrow> nat \<Rightarrow> nat" where
  "size_add a b = (a + b) mod 2 ^ 64"

type_synonym size_word = "64 word"

section \<open>Message\<close>

text \<open>
  \<^verbatim>\<open>class Message { Type msgType; std::vector<char> buffer; mutable size_t readPos; }\<close>
  with \<^verbatim>\<open>Type = int\<close>.
\<close>

record message =
  msgType :: "32 word"
  buffer :: "byte list"
  readPos :: nat

text \<open>
  The exceptions that the code throws, and, last, two ways in which a thread ends that
  are not exceptions: the signal \<^verbatim>\<open>SIGPIPE\<close>, and undefined behaviour.
\<close>

datatype error =
    DeserializationFailed
  | LengthError
  | SendingFailed
  | NotConnected
  | NotStarted
  | UnknownClient
  | BatchSendingFailed
  | SigPipe
  | UndefinedBehaviour

text \<open>\<^verbatim>\<open>Message::Message(Type type)\<close>\<close>

definition Message :: "32 word \<Rightarrow> message" where
  "Message t = \<lparr>msgType = t, buffer = [], readPos = 0\<rparr>"

text \<open>\<^verbatim>\<open>Message::Message(const Message& other)\<close>\<close>

definition Message_copy :: "message \<Rightarrow> message" where
  "Message_copy other = \<lparr>msgType = msgType other, buffer = buffer other, readPos = 0\<rparr>"

text \<open>
  \<^verbatim>\<open>Message& Message::operator=(const Message& other)\<close>. The operator compares the addresses
  of its two operands, so it is modelled on a store of Message objects: \<open>this\<close> and
  \<open>other\<close> are addresses, and the result is the store after the assignment.
\<close>

type_synonym addr = nat
type_synonym store = "addr \<Rightarrow> message"

definition Message_assign :: "store \<Rightarrow> addr \<Rightarrow> addr \<Rightarrow> store" where
  "Message_assign h this other =
     (if this \<noteq> other
      then h(this := \<lparr>msgType = msgType (h other), buffer = buffer (h other), readPos = 0\<rparr>)
      else h)"

text \<open>\<^verbatim>\<open>Message::resetRead()\<close>; \<^verbatim>\<open>Message::type()\<close> is the field \<open>msgType\<close>.\<close>

definition resetRead :: "message \<Rightarrow> message" where
  "resetRead m = m\<lparr>readPos := 0\<rparr>"

text \<open>\<^verbatim>\<open>std::string Message::serialize() const\<close>: the type's four bytes, then the buffer.\<close>

definition serialize :: "endian \<Rightarrow> message \<Rightarrow> byte list" where
  "serialize host m = obj_rep host 4 (msgType m) @ buffer m"

text \<open>
  \<^verbatim>\<open>void Message::deserialize(const std::string& data)\<close>. An operation that can throw
  returns the exception or the result, and the object as the call leaves it.
\<close>

definition deserialize :: "endian \<Rightarrow> byte list \<Rightarrow> message \<Rightarrow> (error + unit) \<times> message" where
  "deserialize host data m =
     (if length data < 4 then (Inl DeserializationFailed, m)
      else (Inr (), m\<lparr>msgType := obj_val host (take 4 data),
                       buffer := drop 4 data,
                       readPos := 0\<rparr>))"

text \<open>
  \<^verbatim>\<open>template <typename T> Message& operator<<(const T& data)\<close>: \<open>rep\<close> is the object
  representation of \<open>data\<close>, \<open>sizeof(T)\<close> bytes long. A \<^verbatim>\<open>std::vector\<close> holds fewer than
  \<open>2 ^ 64\<close> bytes; the properties below bound the payload where its length matters.
\<close>

definition push_T :: "byte list \<Rightarrow> message \<Rightarrow> message" where
  "push_T rep m = m\<lparr>buffer := buffer m @ rep\<rparr>"

text \<open>
  \<^verbatim>\<open>template <typename T> Message& operator>>(T& data)\<close>, for a type of \<open>n = sizeof(T)\<close>
  bytes; the bytes copied into \<open>data\<close> are returned.
\<close>

definition pop_T :: "nat \<Rightarrow> message \<Rightarrow> (error + byte list) \<times> message" where
  "pop_T n m =
     (if size_add (readPos m) n > length (buffer m) then (Inl DeserializationFailed, m)
      else (Inr (take n (drop (readPos m) (buffer m))),
            m\<lparr>readPos := size_add (readPos m) n\<rparr>))"

text \<open>\<^verbatim>\<open>template <> Message& Message::operator<<(const std::string& data)\<close>\<close>

definition push_string :: "endian \<Rightarrow> byte list \<Rightarrow> message \<Rightarrow> message" where
  "push_string host data m =
     (let size = (of_nat (length data) :: size_word);
          m1 = push_T (obj_rep host 8 size) m
      in m1\<lparr>buffer := buffer m1 @ data\<rparr>)"

text \<open>
  \<^verbatim>\<open>template <> Message& Message::operator>>(std::string& data)\<close>. The length is read with
  the scalar operator, which moves the cursor; then the content is checked. When
  \<open>readPos + size\<close> wraps around, the check can pass although the buffer holds fewer
  bytes: \<^verbatim>\<open>data.assign\<close> is then called with a count beyond what a string can hold
  and raises \<^verbatim>\<open>std::length_error\<close>.
\<close>

definition pop_string :: "endian \<Rightarrow> message \<Rightarrow> (error + byte list) \<times> message" where
  "pop_string host m =
     (case pop_T 8 m of
        (Inl e, m1) \<Rightarrow> (Inl e, m1)
      | (Inr rep, m1) \<Rightarrow>
          (let size = unat (obj_val host rep :: size_word) in
           if size_add (readPos m1) size > length (buffer m1)
           then (Inl DeserializationFailed, m1)
           else if readPos m1 + size > length (buffer m1)
           then (Inl LengthError, m1)
           else (Inr (take size (drop (readPos m1) (buffer m1))),
                 m1\<lparr>readPos := size_add (readPos m1) size\<rparr>)))"

subsection \<open>Sequences of typed appends and reads\<close>

text \<open>
  A value is a fixed-size scalar, given by its object representation, or a string. A
  chain \<^verbatim>\<open>msg << a << b\<close> is \<open>push_all\<close>, a chain \<^verbatim>\<open>msg >> x >> y\<close> is \<open>pop_all\<close>:
  the chain ends at the first exception.
\<close>

datatype val = VScalar "byte list" | VString "byte list"

datatype ty = TScalar nat | TString

fun type_of_val :: "val \<Rightarrow> ty" where
  "type_of_val (VScalar rep) = TScalar (length rep)"
| "type_of_val (VString data) = TString"

fun push :: "endian \<Rightarrow> val \<Rightarrow> message \<Rightarrow> message" where
  "push host (VScalar rep) m = push_T rep m"
| "push host (VString data) m = push_string host data m"

fun pop :: "endian \<Rightarrow> ty \<Rightarrow> message \<Rightarrow> (error + val) \<times> message" where
  "pop host (TScalar n) m =
     (case pop_T n m of (Inl e, m1) \<Rightarrow> (Inl e, m1) | (Inr rep, m1) \<Rightarrow> (Inr (VScalar rep), m1))"
| "pop host TString m =
     (case pop_string host m of (Inl e, m1) \<Rightarrow> (Inl e, m1) | (Inr data, m1) \<Rightarrow> (Inr (VString data), m1))"

fun push_all :: "endian \<Rightarrow> val list \<Rightarrow> message \<Rightarrow> message" where
  "push_all host [] m = m"
| "push_all host (v # vs) m = push_all host vs (push host v m)"

fun pop_all :: "endian \<Rightarrow> ty list \<Rightarrow> message \<Rightarrow> (error + val list) \<times> message" where
  "pop_all host [] m = (Inr [], m)"
| "pop_all host (t # ts) m =
     (case pop host t m of
        (Inl e, m1) \<Rightarrow> (Inl e, m1)
      | (Inr v, m1) \<Rightarrow>
          (case pop_all host ts m1 of
             (Inl e, m2) \<Rightarrow> (Inl e, m2)
           | (Inr vs, m2) \<Rightarrow> (Inr (v # vs), m2)))"

text \<open>The bytes left between the cursor and the end of the payload.\<close>

definition remaining :: "message \<Rightarrow> nat" where
  "remaining m = length (buffer m) - readPos m"

section \<open>Sockets\<close>

text \<open>
  A connected stream socket, seen from one endpoint: the bytes written to it so far, in
  order, the bytes that have arrived and are not yet read, and the state of the
  connection. The descriptors are blocking and the code passes no flag to \<^verbatim>\<open>send\<close>, so:
  while the connection is \<open>Open\<close>, \<^verbatim>\<open>send\<close> takes all the bytes it is given, and
  \<^verbatim>\<open>recv(..., MSG_WAITALL)\<close> waits until it has all the bytes it was asked for; once the
  peer has closed and this end knows it (\<open>PeerClosed\<close>), \<^verbatim>\<open>recv\<close> returns what is left
  and then 0, and
  \<^verbatim>\<open>send\<close> raises \<^verbatim>\<open>SIGPIPE\<close>, whose disposition the code leaves at the default: the
  process is killed; after an error on the connection (\<open>ConnReset\<close>) \<^verbatim>\<open>recv\<close> and
  \<^verbatim>\<open>send\<close> return -1. A signal that interrupts a call is not modelled.
\<close>

datatype connection = Open | PeerClosed | ConnReset

record socket =
  outgoing :: "byte list"
  incoming :: "byte list"
  conn :: connection

text \<open>
  What one iteration of an I/O loop does: it runs to its end, it leaves the loop, it
  waits inside \<^verbatim>\<open>recv(..., MSG_WAITALL)\<close> for bytes that have not arrived, or it ends the
  process (a signal, or an exception that leaves the thread function, which calls
  \<^verbatim>\<open>std::terminate\<close>).
\<close>

datatype 'a iteration = Continue 'a | Break 'a | Blocked 'a | Abort 'a

text \<open>
  \<^verbatim>\<open>std::vector<char>::max_size()\<close> on a 64-bit target. The constructor
  \<^verbatim>\<open>std::vector<char>(n)\<close> throws \<^verbatim>\<open>std::length_error\<close> above it. Below it the
  allocation is taken to succeed: the model puts no bound on memory. (Where memory runs
  out the constructor throws \<^verbatim>\<open>std::bad_alloc\<close>, which leaves the thread function in the
  same way.)
\<close>

definition vector_max_size :: nat where
  "vector_max_size = 2 ^ 63 - 1"

section \<open>Client\<close>

text \<open>
  A callback is an opaque value of type \<open>'cb\<close>; an action table maps a message type to a
  \<^verbatim>\<open>std::function\<close>, which may be empty (\<open>None\<close>). Calling \<open>update\<close> yields the calls
  it makes, in order, each with the message it is given; what a callback does, once
  called, is the application's and it is taken to return. \<open>receiverThread\<close> tells whether
  the thread object is joinable.
\<close>

record 'cb client =
  sockfd :: int
  isConnected :: bool
  shouldStop :: bool
  receiverThread :: bool
  receivedMessages :: "message list"
  messagesToSend :: "message list"
  actions :: "32 word \<rightharpoonup> 'cb option"

datatype syscall = ThreadJoin | Close int

text \<open>\<^verbatim>\<open>Client::Client()\<close>\<close>

definition Client :: "'cb client" where
  "Client = \<lparr>sockfd = - 1, isConnected = False, shouldStop = False, receiverThread = False,
             receivedMessages = [], messagesToSend = [], actions = Map.empty\<rparr>"

text \<open>\<^verbatim>\<open>void Client::defineAction(const Message::Type&, const Action&)\<close>\<close>

definition Client_defineAction :: "32 word \<Rightarrow> 'cb option \<Rightarrow> 'cb client \<Rightarrow> 'cb client" where
  "Client_defineAction messageType action c = c\<lparr>actions := (actions c)(messageType \<mapsto> action)\<rparr>"

text \<open>\<^verbatim>\<open>void Client::send(const Message& message)\<close>: the queue stores a copy.\<close>

definition Client_send :: "message \<Rightarrow> 'cb client \<Rightarrow> (error + unit) \<times> 'cb client" where
  "Client_send message c =
     (if \<not> isConnected c then (Inl NotConnected, c)
      else (Inr (), c\<lparr>messagesToSend := messagesToSend c @ [Message_copy message]\<rparr>))"

text \<open>
  The loop of \<^verbatim>\<open>Client::update()\<close> over the swapped-out queue and the snapshot of the
  action table: the front message is copied, popped, and handed to the callback found
  for its type, if there is one and it is not empty.
\<close>

fun Client_update_loop :: "(32 word \<rightharpoonup> 'cb option) \<Rightarrow> message list \<Rightarrow> ('cb \<times> message) list" where
  "Client_update_loop currentActions [] = []"
| "Client_update_loop currentActions (front # messagesToProcess) =
     (let msg = Message_copy front in
      (case currentActions (msgType msg) of
         Some (Some f) \<Rightarrow> [(f, msg)]
       | _ \<Rightarrow> [])
      @ Client_update_loop currentActions messagesToProcess)"

text \<open>\<^verbatim>\<open>void Client::update()\<close>\<close>

definition Client_update :: "'cb client \<Rightarrow> (error + ('cb \<times> message) list) \<times> 'cb client" where
  "Client_update c =
     (if \<not> isConnected c then (Inl NotConnected, c)
      else (let messagesToProcess = receivedMessages c;
                currentActions = actions c
            in (Inr (Client_update_loop currentActions messagesToProcess),
                c\<lparr>receivedMessages := []\<rparr>)))"

text \<open>
  \<^verbatim>\<open>void Client::sendMessage(const Message& message)\<close>: the length, then the bytes. A
  \<^verbatim>\<open>send\<close> that returns an error throws \<^verbatim>\<open>SendingFailedException\<close>; a \<^verbatim>\<open>send\<close> to a
  connection that the peer has closed raises \<^verbatim>\<open>SIGPIPE\<close>.
\<close>

definition Client_sendMessage :: "endian \<Rightarrow> message \<Rightarrow> socket \<Rightarrow> (error + unit) \<times> socket" where
  "Client_sendMessage host message sk =
     (let serialized = serialize host message;
          messageSize = (of_nat (length serialized) :: size_word)
      in case conn sk of
           Open \<Rightarrow> (Inr (), sk\<lparr>outgoing := outgoing sk @ obj_rep host 8 messageSize @ serialized\<rparr>)
         | PeerClosed \<Rightarrow> (Inl SigPipe, sk)
         | ConnReset \<Rightarrow> (Inl SendingFailed, sk))"

text \<open>
  The receiving half of an I/O loop iteration, shared in shape by
  \<^verbatim>\<open>Client::receiverLoop\<close> and \<^verbatim>\<open>Server::handleClient\<close>: \<^verbatim>\<open>select\<close>, the 8-byte length,
  the buffer of that length, the frame, \<^verbatim>\<open>deserialize\<close>. The result is the message to
  queue, if any.

  \<^item> \<^verbatim>\<open>select\<close> reports the socket readable when bytes have arrived or the connection is
    no longer open; otherwise it times out (\<open>NoActivity\<close>).
  \<^item> The read of the length waits for 8 bytes (\<open>Waiting\<close>); when the peer has closed it
    returns the bytes left, fewer than 8 (\<open>ShortHeader\<close>), or 0 (\<open>ConnectionLost\<close>).
  \<^item> \<^verbatim>\<open>std::vector<char> messageData(messageSize)\<close> stands outside the \<^verbatim>\<open>try\<close> block:
    its \<^verbatim>\<open>std::length_error\<close> leaves the thread function (\<open>Throws\<close>).
  \<^item> The read of the frame waits for \<open>messageSize\<close> bytes. A read of no bytes, for a
    length of 0, waits until the socket is readable and then returns 0, which the loop
    takes for the end of the connection.
  \<^item> Everything inside the \<^verbatim>\<open>try\<close> block that throws is dropped (\<open>Dropped\<close>).

  A thread that waits has consumed nothing here: when it is resumed it reads the same
  bytes again, and more.
\<close>

datatype received =
  NoActivity | ConnectionLost | Waiting | ShortHeader | Throws error | Dropped | Frame message

definition recv_frame :: "endian \<Rightarrow> socket \<Rightarrow> received \<times> socket" where
  "recv_frame host sk =
     (if conn sk = ConnReset then (ConnectionLost, sk)
      else if incoming sk = [] then
        (if conn sk = Open then (NoActivity, sk) else (ConnectionLost, sk))
      else if length (incoming sk) < 8 then
        (if conn sk = Open then (Waiting, sk) else (ShortHeader, sk\<lparr>incoming := []\<rparr>))
      else
        (let messageSize = unat (obj_val host (take 8 (incoming sk)) :: size_word);
             rest = drop 8 (incoming sk)
         in if messageSize > vector_max_size then (Throws LengthError, sk\<lparr>incoming := rest\<rparr>)
            else if messageSize = 0 then
              (if rest = [] \<and> conn sk = Open then (Waiting, sk)
               else (ConnectionLost, sk\<lparr>incoming := rest\<rparr>))
            else if length rest < messageSize then
              (if conn sk = Open then (Waiting, sk) else (ConnectionLost, sk\<lparr>incoming := []\<rparr>))
            else
              (case deserialize host (take messageSize rest) (Message 0) of
                 (Inl e, msg) \<Rightarrow> (Dropped, sk\<lparr>incoming := drop messageSize rest\<rparr>)
               | (Inr u, msg) \<Rightarrow> (Frame msg, sk\<lparr>incoming := drop messageSize rest\<rparr>))))"

text \<open>
  The sending half of an iteration of the loop in \<^verbatim>\<open>Client::receiverLoop()\<close>: only
  \<^verbatim>\<open>SendingFailedException\<close> is caught.
\<close>

definition receiverLoop_send ::
  "endian \<Rightarrow> 'cb client \<times> socket \<Rightarrow> ('cb client \<times> socket) iteration" where
  "receiverLoop_send host cs =
     (let c = fst cs; sk = snd cs in
      if messagesToSend c \<noteq> [] then
        (case Client_sendMessage host (hd (messagesToSend c)) sk of
           (Inr u, sk1) \<Rightarrow> Continue (c\<lparr>messagesToSend := tl (messagesToSend c)\<rparr>, sk1)
         | (Inl e, sk1) \<Rightarrow>
             (if e = SendingFailed then Break (c\<lparr>shouldStop := True\<rparr>, sk1)
              else Abort (c, sk1)))
      else Continue (c, sk))"

text \<open>The receiving half of an iteration of the loop in \<^verbatim>\<open>Client::receiverLoop()\<close>.\<close>

definition receiverLoop_recv ::
  "endian \<Rightarrow> 'cb client \<times> socket \<Rightarrow> ('cb client \<times> socket) iteration" where
  "receiverLoop_recv host cs =
     (let c = fst cs; sk = snd cs in
      case recv_frame host sk of
        (NoActivity, sk1) \<Rightarrow> Continue (c, sk1)
      | (ConnectionLost, sk1) \<Rightarrow> Break (c\<lparr>shouldStop := True\<rparr>, sk1)
      | (Waiting, sk1) \<Rightarrow> Blocked (c, sk1)
      | (ShortHeader, sk1) \<Rightarrow> Continue (c, sk1)
      | (Throws e, sk1) \<Rightarrow> Abort (c, sk1)
      | (Dropped, sk1) \<Rightarrow> Continue (c, sk1)
      | (Frame msg, sk1) \<Rightarrow>
          Continue (c\<lparr>receivedMessages := receivedMessages c @ [Message_copy msg]\<rparr>, sk1))"

text \<open>One iteration of the loop in \<^verbatim>\<open>Client::receiverLoop()\<close>: the send, then the receive.\<close>

definition receiverLoop_body ::
  "endian \<Rightarrow> 'cb client \<times> socket \<Rightarrow> ('cb client \<times> socket) iteration" where
  "receiverLoop_body host cs =
     (case receiverLoop_send host cs of
        Continue cs1 \<Rightarrow> receiverLoop_recv host cs1
      | Break cs1 \<Rightarrow> Break cs1
      | Blocked cs1 \<Rightarrow> Blocked cs1
      | Abort cs1 \<Rightarrow> Abort cs1)"


text \<open>
  Where the receiver thread stands in its loop at the moment another thread looks at it:
  at the test of the loop, before the sending half, or before the receiving half (which
  includes being inside \<^verbatim>\<open>select\<close> or \<^verbatim>\<open>recv\<close>). \<open>receiverLoop_rest\<close> is what is left of
  the iteration from there.
\<close>

datatype position = AtLoopTest | BeforeSend | BeforeReceive

definition receiverLoop_rest ::
  "endian \<Rightarrow> position \<Rightarrow> 'cb client \<times> socket \<Rightarrow> ('cb client \<times> socket) iteration" where
  "receiverLoop_rest host pos cs =
     (case pos of
        AtLoopTest \<Rightarrow> Continue cs
      | BeforeSend \<Rightarrow> receiverLoop_body host cs
      | BeforeReceive \<Rightarrow> receiverLoop_recv host cs)"

text \<open>
  \<^verbatim>\<open>void Client::disconnect()\<close>, with the system calls it makes, given where the receiver
  thread stands and the bytes that have arrived on the socket. A call returns, never
  returns, or ends with the process.

  Having set the two flags, \<open>disconnect\<close> joins the thread: it waits until the thread
  function has returned. The thread finishes its iteration; at the test of the loop it
  finds \<open>isConnected\<close> cleared (nothing in the loop sets it), leaves the loop and
  returns. The thread does not look at the flags while it is inside \<^verbatim>\<open>recv\<close>: if it
  waits there, the join waits with it, and the lines after the join are not reached.
\<close>

datatype 'a outcome = Returns 'a | Hangs | Terminates

definition Client_disconnect ::
  "endian \<Rightarrow> position \<Rightarrow> 'cb client \<times> socket \<Rightarrow> (syscall list \<times> 'cb client \<times> socket) outcome" where
  "Client_disconnect host pos cs =
     (let c = fst cs; sk = snd cs in
      if \<not> isConnected c then Returns ([], c, sk)
      else
        (let c1 = c\<lparr>shouldStop := True, isConnected := False\<rparr> in
         if receiverThread c1 then
           (case receiverLoop_rest host pos (c1, sk) of
              Continue cs2 \<Rightarrow>
                Returns ([ThreadJoin, Close (sockfd (fst cs2))],
                         (fst cs2)\<lparr>isConnected := False, receiverThread := False, sockfd := - 1,
                                   receivedMessages := [], messagesToSend := []\<rparr>,
                         snd cs2)
            | Break cs2 \<Rightarrow>
                Returns ([ThreadJoin, Close (sockfd (fst cs2))],
                         (fst cs2)\<lparr>isConnected := False, receiverThread := False, sockfd := - 1,
                                   receivedMessages := [], messagesToSend := []\<rparr>,
                         snd cs2)
            | Blocked cs2 \<Rightarrow> Hangs
            | Abort cs2 \<Rightarrow> Terminates)
         else
           Returns ([Close (sockfd c1)],
                    c1\<lparr>sockfd := - 1, receivedMessages := [], messagesToSend := []\<rparr>,
                    sk)))"

section \<open>Server\<close>

text \<open>
  \<^verbatim>\<open>ClientID = long long\<close>: a 64-bit signed integer, an \<open>int\<close> here, with the two's
  complement wrap-around of the increment written out (C++ leaves the overflow undefined;
  the properties below stay under it). \<^verbatim>\<open>std::map<ClientID, int> clients\<close> is iterated,
  so it is the list of its entries in key order; the other tables are only looked up by
  key.
\<close>

type_synonym ClientID = int

definition wrap_ll :: "int \<Rightarrow> int" where
  "wrap_ll x = (x + 2 ^ 63) mod 2 ^ 64 - 2 ^ 63"

fun map_assign :: "ClientID \<Rightarrow> 'v \<Rightarrow> (ClientID \<times> 'v) list \<Rightarrow> (ClientID \<times> 'v) list" where
  "map_assign k v [] = [(k, v)]"
| "map_assign k v (e # es) =
     (if k < fst e then (k, v) # e # es
      else if k = fst e then (k, v) # es
      else e # map_assign k v es)"

definition map_erase :: "ClientID \<Rightarrow> (ClientID \<times> 'v) list \<Rightarrow> (ClientID \<times> 'v) list" where
  "map_erase k es = filter (\<lambda>e. fst e \<noteq> k) es"

record 'cb server =
  serverSocket :: int
  isRunning :: bool
  srvShouldStop :: bool
  clients :: "(ClientID \<times> int) list"
  srvReceivedMessages :: "(ClientID \<times> message) list"
  srvMessagesToSend :: "ClientID \<rightharpoonup> message list"
  srvActions :: "32 word \<rightharpoonup> 'cb option"
  nextClientID :: ClientID

text \<open>\<^verbatim>\<open>Server::Server()\<close>\<close>

definition Server :: "'cb server" where
  "Server = \<lparr>serverSocket = - 1, isRunning = False, srvShouldStop = False, clients = [],
             srvReceivedMessages = [], srvMessagesToSend = Map.empty, srvActions = Map.empty,
             nextClientID = 1\<rparr>"

text \<open>\<^verbatim>\<open>void Server::defineAction(const Message::Type&, const Action&)\<close>\<close>

definition Server_defineAction :: "32 word \<Rightarrow> 'cb option \<Rightarrow> 'cb server \<Rightarrow> 'cb server" where
  "Server_defineAction messageType action s = s\<lparr>srvActions := (srvActions s)(messageType \<mapsto> action)\<rparr>"

text \<open>
  \<^verbatim>\<open>messagesToSend[clientID].push(message)\<close>: \<^verbatim>\<open>operator[]\<close> creates an empty queue for a
  key that has none; the queue stores a copy of the message.
\<close>

definition queue_push ::
  "ClientID \<Rightarrow> message \<Rightarrow> (ClientID \<rightharpoonup> message list) \<Rightarrow> (ClientID \<rightharpoonup> message list)" where
  "queue_push clientID message mts =
     mts(clientID \<mapsto> (case mts clientID of None \<Rightarrow> [] | Some q \<Rightarrow> q) @ [Message_copy message])"

text \<open>\<^verbatim>\<open>void Server::sendTo(const Message& message, ClientID clientID)\<close>\<close>

definition Server_sendTo :: "message \<Rightarrow> ClientID \<Rightarrow> 'cb server \<Rightarrow> (error + unit) \<times> 'cb server" where
  "Server_sendTo message clientID s =
     (if \<not> isRunning s then (Inl NotStarted, s)
      else if map_of (clients s) clientID = None then (Inl UnknownClient, s)
      else (Inr (), s\<lparr>srvMessagesToSend := queue_push clientID message (srvMessagesToSend s)\<rparr>))"

text \<open>
  The loop of \<^verbatim>\<open>Server::sendToArray\<close>: \<^verbatim>\<open>UnknownClientException\<close> is caught and sets the
  flag; any other exception of \<open>sendTo\<close> leaves the loop.
\<close>

fun Server_sendToArray_loop ::
  "message \<Rightarrow> ClientID list \<Rightarrow> bool \<Rightarrow> 'cb server \<Rightarrow> (error + bool) \<times> 'cb server" where
  "Server_sendToArray_loop message [] err s = (Inr err, s)"
| "Server_sendToArray_loop message (clientID # clientIDs) err s =
     (case Server_sendTo message clientID s of
        (Inr u, s1) \<Rightarrow> Server_sendToArray_loop message clientIDs err s1
      | (Inl e, s1) \<Rightarrow>
          (if e = UnknownClient then Server_sendToArray_loop message clientIDs True s1
           else (Inl e, s1)))"

text \<open>\<^verbatim>\<open>void Server::sendToArray(const Message& message, std::vector<ClientID> clientIDs)\<close>\<close>

definition Server_sendToArray ::
  "message \<Rightarrow> ClientID list \<Rightarrow> 'cb server \<Rightarrow> (error + unit) \<times> 'cb server" where
  "Server_sendToArray message clientIDs s =
     (if \<not> isRunning s then (Inl NotStarted, s)
      else (case Server_sendToArray_loop message clientIDs False s of
              (Inl e, s1) \<Rightarrow> (Inl e, s1)
            | (Inr err, s1) \<Rightarrow> (if err then (Inl BatchSendingFailed, s1) else (Inr (), s1))))"

text \<open>
  The loop of \<^verbatim>\<open>Server::sendToAll\<close> over the entries of \<open>clients\<close>. Its flag is set only
  when the push itself throws, which appending to a queue does not do here, so the flag
  is carried unchanged.
\<close>

fun Server_sendToAll_loop ::
  "message \<Rightarrow> (ClientID \<times> int) list \<Rightarrow> bool \<Rightarrow> (ClientID \<rightharpoonup> message list)
     \<Rightarrow> bool \<times> (ClientID \<rightharpoonup> message list)" where
  "Server_sendToAll_loop message [] err mts = (err, mts)"
| "Server_sendToAll_loop message (client # rest) err mts =
     Server_sendToAll_loop message rest err (queue_push (fst client) message mts)"

text \<open>\<^verbatim>\<open>void Server::sendToAll(const Message& message)\<close>\<close>

definition Server_sendToAll :: "message \<Rightarrow> 'cb server \<Rightarrow> (error + unit) \<times> 'cb server" where
  "Server_sendToAll message s =
     (if \<not> isRunning s then (Inl NotStarted, s)
      else (case Server_sendToAll_loop message (clients s) False (srvMessagesToSend s) of
              (err, mts) \<Rightarrow>
                (if err then (Inl BatchSendingFailed, s\<lparr>srvMessagesToSend := mts\<rparr>)
                 else (Inr (), s\<lparr>srvMessagesToSend := mts\<rparr>))))"

text \<open>The loop of \<^verbatim>\<open>Server::update()\<close> over the swapped-out vector of pairs.\<close>

fun Server_update_loop ::
  "(32 word \<rightharpoonup> 'cb option) \<Rightarrow> (ClientID \<times> message) list \<Rightarrow> ('cb \<times> ClientID \<times> message) list" where
  "Server_update_loop currentActions [] = []"
| "Server_update_loop currentActions (pair # messagesToProcess) =
     (let clientID = fst pair; msg = snd pair in
      (case currentActions (msgType msg) of
         Some (Some f) \<Rightarrow> [(f, clientID, msg)]
       | _ \<Rightarrow> [])
      @ Server_update_loop currentActions messagesToProcess)"

text \<open>\<^verbatim>\<open>void Server::update()\<close>\<close>

definition Server_update ::
  "'cb server \<Rightarrow> (error + ('cb \<times> ClientID \<times> message) list) \<times> 'cb server" where
  "Server_update s =
     (if \<not> isRunning s then (Inl NotStarted, s)
      else (let messagesToProcess = srvReceivedMessages s;
                currentActions = srvActions s
            in (Inr (Server_update_loop currentActions messagesToProcess),
                s\<lparr>srvReceivedMessages := []\<rparr>)))"

text \<open>
  The accepting half of an iteration of \<^verbatim>\<open>Server::acceptorLoop()\<close>, given what
  \<^verbatim>\<open>accept\<close> returned: the identifier handed to the new handler thread, if any.
\<close>

definition acceptorLoop_accept :: "int \<Rightarrow> 'cb server \<Rightarrow> ClientID option \<times> 'cb server" where
  "acceptorLoop_accept clientSocket s =
     (if clientSocket \<ge> 0 then
        (let clientID = nextClientID s in
         (Some clientID,
          s\<lparr>nextClientID := wrap_ll (nextClientID s + 1),
            clients := map_assign clientID clientSocket (clients s),
            srvMessagesToSend := (srvMessagesToSend s)(clientID \<mapsto> [])\<rparr>))
      else (None, s))"

text \<open>
  The removal of a client: the end of \<^verbatim>\<open>Server::handleClient\<close>, and the
  \<^verbatim>\<open>SendingFailedException\<close> handler of the acceptor loop.
\<close>

definition remove_client :: "ClientID \<Rightarrow> 'cb server \<Rightarrow> 'cb server" where
  "remove_client clientID s =
     s\<lparr>clients := map_erase clientID (clients s),
       srvMessagesToSend := (srvMessagesToSend s)(clientID := None)\<rparr>"

text \<open>
  \<^verbatim>\<open>void Server::sendToClient(const Message& message, ClientID clientID)\<close>, writing to the
  socket of that client, with the same two calls of \<^verbatim>\<open>send\<close> as the client.
\<close>

definition Server_sendToClient ::
  "endian \<Rightarrow> message \<Rightarrow> ClientID \<Rightarrow> 'cb server \<Rightarrow> socket \<Rightarrow> (error + unit) \<times> socket" where
  "Server_sendToClient host message clientID s sk =
     (if map_of (clients s) clientID = None then (Inl UnknownClient, sk)
      else (let serialized = serialize host message;
                messageSize = (of_nat (length serialized) :: size_word)
            in case conn sk of
                 Open \<Rightarrow> (Inr (), sk\<lparr>outgoing := outgoing sk @ obj_rep host 8 messageSize @ serialized\<rparr>)
               | PeerClosed \<Rightarrow> (Inl SigPipe, sk)
               | ConnReset \<Rightarrow> (Inl SendingFailed, sk)))"

text \<open>
  The inner loop of the sending half of \<^verbatim>\<open>Server::acceptorLoop()\<close>, for one entry of
  \<open>messagesToSend\<close>, and the \<^verbatim>\<open>++it\<close> that follows it: the loop sends the front of the
  queue and pops it until the queue is empty, and the iterator moves on. On
  \<^verbatim>\<open>SendingFailedException\<close> the handler removes the client, erases the entry and leaves
  the loop; then \<^verbatim>\<open>++it\<close> advances the iterator of the erased entry, which is invalid:
  the behaviour is undefined. Nothing else is caught.
\<close>

fun acceptorLoop_drain ::
  "endian \<Rightarrow> ClientID \<Rightarrow> message list \<Rightarrow> 'cb server \<times> socket \<Rightarrow> (error + unit) \<times> 'cb server \<times> socket" where
  "acceptorLoop_drain host clientID [] ss = (Inr (), ss)"
| "acceptorLoop_drain host clientID (front # rest) ss =
     (case Server_sendToClient host front clientID (fst ss) (snd ss) of
        (Inr u, sk1) \<Rightarrow>
          acceptorLoop_drain host clientID rest
            ((fst ss)\<lparr>srvMessagesToSend := (srvMessagesToSend (fst ss))(clientID \<mapsto> rest)\<rparr>, sk1)
      | (Inl e, sk1) \<Rightarrow>
          (if e = SendingFailed
           then (Inl UndefinedBehaviour, remove_client clientID (fst ss), sk1)
           else (Inl e, fst ss, sk1)))"

text \<open>
  The body of the outer loop, for the entry of one client. The entry is erased when the
  client table no longer holds its identifier; otherwise the queue is drained.
\<close>

definition acceptorLoop_send ::
  "endian \<Rightarrow> ClientID \<Rightarrow> 'cb server \<times> socket \<Rightarrow> (error + unit) \<times> 'cb server \<times> socket" where
  "acceptorLoop_send host clientID ss =
     (case srvMessagesToSend (fst ss) clientID of
        None \<Rightarrow> (Inr (), ss)
      | Some q \<Rightarrow>
          (if map_of (clients (fst ss)) clientID = None
           then (Inr (), (fst ss)\<lparr>srvMessagesToSend := (srvMessagesToSend (fst ss))(clientID := None)\<rparr>, snd ss)
           else acceptorLoop_drain host clientID q ss))"



text \<open>
  What happens to a Server over its lifetime, as far as the client table is concerned:
  \<^verbatim>\<open>accept\<close> returns a descriptor (or fails), a client is removed, or the application
  calls the sending interface. \<open>run\<close> collects the identifiers assigned along the way.
\<close>

datatype event =
    Accept int
  | Remove ClientID
  | SendTo message ClientID
  | SendToArray message "ClientID list"
  | SendToAll message
  | Update

fun step :: "event \<Rightarrow> 'cb server \<Rightarrow> ClientID list \<times> 'cb server" where
  "step (Accept clientSocket) s =
     (case acceptorLoop_accept clientSocket s of
        (Some clientID, s1) \<Rightarrow> ([clientID], s1)
      | (None, s1) \<Rightarrow> ([], s1))"
| "step (Remove clientID) s = ([], remove_client clientID s)"
| "step (SendTo message clientID) s = ([], snd (Server_sendTo message clientID s))"
| "step (SendToArray message clientIDs) s = ([], snd (Server_sendToArray message clientIDs s))"
| "step (SendToAll message) s = ([], snd (Server_sendToAll message s))"
| "step Update s = ([], snd (Server_update s))"

fun run :: "event list \<Rightarrow> 'cb server \<Rightarrow> ClientID list \<times> 'cb server" where
  "run [] s = ([], s)"
| "run (e # es) s =
     (case step e s of (ids, s1) \<Rightarrow> (case run es s1 of (ids', s2) \<Rightarrow> (ids @ ids', s2)))"

fun accepted :: "event \<Rightarrow> bool" where
  "accepted (Accept clientSocket) = (clientSocket \<ge> 0)"
| "accepted e = False"

section \<open>A server and its clients\<close>


datatype net_event =
    ClientSend ClientID message
  | ClientLoop ClientID
  | ClientUpdate ClientID
  | ServerSendTo message ClientID
  | ServerSendToArray message "ClientID list"
  | ServerSendToAll message
  | SenderLoop ClientID
  | HandlerLoop ClientID
  | ServerUpdate




text \<open>
  The messages that one event addresses to the client \<open>i\<close> through the sending
  interface of the server: once per occurrence of \<open>i\<close> in the list of \<open>sendToArray\<close>.
\<close>

fun sent_to :: "ClientID \<Rightarrow> net_event \<Rightarrow> message list" where
  "sent_to i (ServerSendTo m j) = (if j = i then [m] else [])"
| "sent_to i (ServerSendToArray m ids) = replicate (count_list ids i) m"
| "sent_to i (ServerSendToAll m) = [m]"
| "sent_to i e = []"

section \<open>Notions used to state the properties\<close>

text \<open>The bytes that appending a value adds to the payload.\<close>

definition encode :: "endian \<Rightarrow> val \<Rightarrow> byte list" where
  "encode host v = (case v of VScalar rep \<Rightarrow> rep
                    | VString data \<Rightarrow> obj_rep host 8 (of_nat (length data) :: size_word) @ data)"

text \<open>A store in which every address holds a message whose cursor has advanced.\<close>

definition aliased_store :: store where
  "aliased_store = (\<lambda>a. \<lparr>msgType = 1, buffer = [7, 0, 0, 0], readPos = 4\<rparr>)"

text \<open>A message type has a callback when the table holds a non-empty function for it.\<close>

definition registered :: "(32 word \<rightharpoonup> 'cb option) \<Rightarrow> 32 word \<Rightarrow> bool" where
  "registered acts t = (case acts t of Some (Some f) \<Rightarrow> True | _ \<Rightarrow> False)"

text \<open>The outbound queue of a client, empty when the table has no entry for it.\<close>

definition queue_of :: "(ClientID \<rightharpoonup> message list) \<Rightarrow> ClientID \<Rightarrow> message list" where
  "queue_of mts clientID = (case mts clientID of None \<Rightarrow> [] | Some q \<Rightarrow> q)"

text \<open>The client table holds the identifier: \<^verbatim>\<open>clients.find(clientID) != clients.end()\<close>.\<close>

definition known :: "'cb server \<Rightarrow> ClientID \<Rightarrow> bool" where
  "known s clientID = (map_of (clients s) clientID \<noteq> None)"

text \<open>
  A connected client with four messages received; type 1 has a callback, type 2 an empty
  function, type 3 none.
\<close>

definition example_client :: "nat client" where
  "example_client =
     \<lparr>sockfd = 3, isConnected = True, shouldStop = False, receiverThread = True,
      receivedMessages = [Message 1, Message 2, Message 3, Message 1],
      messagesToSend = [Message 4],
      actions = [1 \<mapsto> Some 10, 2 \<mapsto> None]\<rparr>"

text \<open>A running server with two clients.\<close>

definition example_server :: "nat server" where
  "example_server =
     \<lparr>serverSocket = 3, isRunning = True, srvShouldStop = False,
      clients = [(1, 7), (2, 8)],
      srvReceivedMessages = [(1, Message 1), (2, Message 3), (2, Message 1)],
      srvMessagesToSend = [1 \<mapsto> [], 2 \<mapsto> [Message 9]],
      srvActions = [1 \<mapsto> Some 10],
      nextClientID = 3\<rparr>"

text \<open>
  The frame of a message on the wire: the 8-byte length of its serialization, then the
  serialization.
\<close>

definition frame :: "endian \<Rightarrow> message \<Rightarrow> byte list" where
  "frame host m = obj_rep host 8 (of_nat (length (serialize host m)) :: size_word) @ serialize host m"

text \<open>The application calls \<open>send\<close> for each message of a list, in order.\<close>

fun send_all :: "message list \<Rightarrow> 'cb client \<Rightarrow> 'cb client" where
  "send_all [] c = c"
| "send_all (m # ms) c = send_all ms (snd (Client_send m c))"

text \<open>The state that an iteration leaves, however it ends.\<close>

definition state_after :: "'a iteration \<Rightarrow> 'a" where
  "state_after r = (case r of Continue x \<Rightarrow> x | Break x \<Rightarrow> x | Blocked x \<Rightarrow> x | Abort x \<Rightarrow> x)"

text \<open>A connection on which nothing has been written or received yet.\<close>

definition example_socket :: socket where
  "example_socket = \<lparr>outgoing = [], incoming = [], conn = Open\<rparr>"

text \<open>
  An open connection on which 3 of the 8 bytes of a length have arrived, and the peer is
  silent.
\<close>

definition partial_header :: socket where
  "partial_header = \<lparr>outgoing = [], incoming = [5, 0, 0], conn = Open\<rparr>"

text \<open>
  The length of the serialization is within \<^verbatim>\<open>std::vector<char>::max_size()\<close>, so within
  \<^verbatim>\<open>size_t\<close>.
\<close>

definition fits :: "message \<Rightarrow> bool" where
  "fits m = (length (buffer m) + 4 \<le> vector_max_size)"




text \<open>The application calls \<open>sendTo\<close> for each message of a list, in order, for one client.\<close>

fun sendTo_all :: "message list \<Rightarrow> ClientID \<Rightarrow> 'cb server \<Rightarrow> 'cb server" where
  "sendTo_all [] clientID s = s"
| "sendTo_all (m # ms) clientID s = sendTo_all ms clientID (snd (Server_sendTo m clientID s))"
















section \<open>Properties of the message codec\<close>

lemma length_le_bytes: "length (le_bytes n w) = n"
  by (induction n arbitrary: w) auto

lemma le_word_le_bytes: "le_word (le_bytes n w) = (take_bit (8 * n) w :: 'a::len word)"
proof (induction n arbitrary: w)
  case 0
  then show ?case by simp
next
  case (Suc n)
  show ?case
    apply (simp add: Suc)
    apply (rule bit_word_eqI)
    apply (auto simp: bit_simps)
    done
qed

lemma le_bytes_take_bit: "8 * k \<le> j \<Longrightarrow> le_bytes k (take_bit j x) = le_bytes k (x :: 'a::len word)"
proof (induction k arbitrary: x j)
  case 0
  then show ?case by simp
next
  case (Suc k)
  have a: "(ucast (take_bit j x) :: byte) = ucast x"
    using Suc.prems by (intro bit_word_eqI) (auto simp: bit_simps)
  have b: "drop_bit 8 (take_bit j x) = take_bit (j - 8) (drop_bit 8 x)"
    using Suc.prems by (intro bit_word_eqI) (auto simp: bit_simps)
  show ?case using Suc.prems by (simp add: a b Suc.IH)
qed

lemma le_bytes_le_word:
  "8 * length bs \<le> LENGTH('a) \<Longrightarrow> le_bytes (length bs) (le_word bs :: 'a::len word) = bs"
proof (induction bs)
  case Nil
  then show ?case by simp
next
  case (Cons b bs)
  let ?x = "le_word bs :: 'a word"
  have a: "(ucast (ucast b OR push_bit 8 ?x) :: byte) = b"
    using Cons.prems by (intro bit_word_eqI) (auto simp: bit_simps)
  have b: "drop_bit 8 (ucast b OR push_bit 8 ?x) = take_bit (LENGTH('a) - 8) ?x"
    using Cons.prems by (intro bit_word_eqI) (auto simp: bit_simps dest: bit_imp_le_length)
  have c: "le_bytes (length bs) (take_bit (LENGTH('a) - 8) ?x) = bs"
    using Cons by (simp add: le_bytes_take_bit)
  have "le_bytes (length (b # bs)) (le_word (b # bs) :: 'a word)
        = ucast (ucast b OR push_bit 8 ?x) # le_bytes (length bs) (drop_bit 8 (ucast b OR push_bit 8 ?x))"
    by (simp only: le_word.simps le_bytes.simps length_Cons)
  also have "\<dots> = b # bs"
    by (simp only: a b c)
  finally show ?case .
qed

lemma length_obj_rep: "length (obj_rep host n w) = n"
  by (cases host) (simp_all add: obj_rep_def length_le_bytes)

lemma obj_val_obj_rep: "LENGTH('a) \<le> 8 * n \<Longrightarrow> obj_val host (obj_rep host n w) = (w :: 'a::len word)"
  by (cases host) (simp_all add: obj_val_def obj_rep_def le_word_le_bytes take_bit_word_eq_self)

lemma obj_rep_obj_val:
  "length bs = n \<Longrightarrow> 8 * n \<le> LENGTH('a) \<Longrightarrow> obj_rep host n (obj_val host bs :: 'a::len word) = bs"
  using le_bytes_le_word [of bs, where 'a='a] le_bytes_le_word [of "rev bs", where 'a='a]
  by (cases host) (auto simp: obj_val_def obj_rep_def)

lemma le_bytes_numeral: "le_bytes (numeral k) w = ucast w # le_bytes (pred_numeral k) (drop_bit 8 w)"
  by (simp add: numeral_eq_Suc)

lemma size_add_small: "a + b < 2 ^ 64 \<Longrightarrow> size_add a b = a + b"
  by (simp add: size_add_def)

lemma pop_T_at:
  assumes "buffer m = pre @ rep @ post" "readPos m = length pre" "length (buffer m) < 2 ^ 64"
  shows "pop_T (length rep) m = (Inr rep, m\<lparr>readPos := length pre + length rep\<rparr>)"
proof -
  have "length pre + length rep < 2 ^ 64" using assms by simp
  then have "size_add (readPos m) (length rep) = length pre + length rep"
    using assms by (simp add: size_add_small)
  then show ?thesis using assms by (simp add: pop_T_def)
qed

lemma unat_size_of_nat: "n < 2 ^ 64 \<Longrightarrow> unat (of_nat n :: size_word) = n"
  by (simp add: unat_of_nat)

lemma pop_string_at:
  assumes "buffer m = pre @ (obj_rep host 8 (of_nat (length data) :: size_word) @ data) @ post"
    "readPos m = length pre" "length (buffer m) < 2 ^ 64"
  shows "pop_string host m = (Inr data, m\<lparr>readPos := length pre + (8 + length data)\<rparr>)"
proof -
  let ?hdr = "obj_rep host 8 (of_nat (length data) :: size_word)"
  let ?m1 = "m\<lparr>readPos := length pre + 8\<rparr>"
  have len: "length ?hdr = 8" by (simp add: length_obj_rep)
  have "buffer m = pre @ ?hdr @ (data @ post)" using assms by simp
  from pop_T_at [OF this assms(2) assms(3)]
  have p: "pop_T 8 m = (Inr ?hdr, ?m1)" by (simp add: len)
  have sz: "unat (obj_val host ?hdr :: size_word) = length data"
    using assms by (simp add: obj_val_obj_rep unat_size_of_nat)
  have fit: "length pre + 8 + length data < 2 ^ 64" using assms len by simp
  then have sa: "size_add (length pre + 8) (length data) = length pre + 8 + length data"
    by (simp add: size_add_small)
  show ?thesis
    using assms len by (simp add: pop_string_def p sz sa)
qed

lemma pop_at:
  assumes "buffer m = pre @ encode host v @ post" "readPos m = length pre" "length (buffer m) < 2 ^ 64"
  shows "pop host (type_of_val v) m = (Inr v, m\<lparr>readPos := length pre + length (encode host v)\<rparr>)"
proof (cases v)
  case (VScalar rep)
  then show ?thesis using pop_T_at [of m pre rep post] assms by (simp add: encode_def)
next
  case (VString data)
  then show ?thesis using pop_string_at [of m pre host data post] assms
    by (simp add: encode_def length_obj_rep)
qed

lemma pop_all_at:
  "buffer m = pre @ concat (map (encode host) vs) @ post \<Longrightarrow> readPos m = length pre \<Longrightarrow>
   length (buffer m) < 2 ^ 64 \<Longrightarrow>
   pop_all host (map type_of_val vs) m
     = (Inr vs, m\<lparr>readPos := length pre + length (concat (map (encode host) vs))\<rparr>)"
proof (induction vs arbitrary: m pre)
  case Nil
  then show ?case by simp
next
  case (Cons v vs)
  let ?m1 = "m\<lparr>readPos := length pre + length (encode host v)\<rparr>"
  have b: "buffer m = pre @ encode host v @ (concat (map (encode host) vs) @ post)"
    using Cons.prems by simp
  have p: "pop host (type_of_val v) m = (Inr v, ?m1)"
    by (rule pop_at [OF b Cons.prems(2) Cons.prems(3)])
  have "pop_all host (map type_of_val vs) ?m1
        = (Inr vs, ?m1\<lparr>readPos := length (pre @ encode host v) + length (concat (map (encode host) vs))\<rparr>)"
    by (rule Cons.IH) (use Cons.prems in simp_all)
  then show ?case by (simp add: p add.assoc)
qed

lemma push_buffer: "buffer (push host v m) = buffer m @ encode host v"
  by (cases v) (simp_all add: encode_def push_T_def push_string_def Let_def)

lemma push_readPos: "readPos (push host v m) = readPos m"
  by (cases v) (simp_all add: push_T_def push_string_def Let_def)

lemma push_msgType: "msgType (push host v m) = msgType m"
  by (cases v) (simp_all add: push_T_def push_string_def Let_def)

lemma push_all_buffer: "buffer (push_all host vs m) = buffer m @ concat (map (encode host) vs)"
  by (induction vs arbitrary: m) (simp_all add: push_buffer)

lemma push_all_readPos: "readPos (push_all host vs m) = readPos m"
  by (induction vs arbitrary: m) (simp_all add: push_readPos)

text \<open>
  Claim C1. Take a message whose cursor stands at the end of its payload (a fresh message
  is one), append any sequence of values, scalars and strings, the empty sequence
  included, and read the same types back in the same order: every read succeeds and
  returns the value that was appended. The payload after the appends is one that a
  \<^verbatim>\<open>std::vector\<close> can hold, so its length is below \<open>2 ^ 64\<close>.
\<close>
theorem C1_roundtrip:
  assumes "readPos m = length (buffer m)"
    and "length (buffer (push_all host vs m)) < 2 ^ 64"
  shows "fst (pop_all host (map type_of_val vs) (push_all host vs m)) = Inr vs"
proof -
  let ?m = "push_all host vs m"
  have "buffer ?m = buffer m @ concat (map (encode host) vs) @ []"
    by (simp add: push_all_buffer)
  moreover have "readPos ?m = length (buffer m)"
    using assms by (simp add: push_all_readPos)
  ultimately show ?thesis
    using pop_all_at [of ?m "buffer m" host vs "[]"] assms(2) by simp
qed

theorem C1_roundtrip_witness:
  "fst (pop_all LittleEndian [TScalar 4, TString, TString]
         (push_all LittleEndian [VScalar [7, 0, 0, 0], VString [110, 101, 116], VString []] (Message 1)))
   = Inr [VScalar [7, 0, 0, 0], VString [110, 101, 116], VString []]"
proof -
  let ?vs = "[VScalar [7, 0, 0, 0], VString [110, 101, 116], VString []]"
  have h1: "readPos (Message 1) = length (buffer (Message 1))"
    by (simp add: Message_def)
  have h2: "length (buffer (push_all LittleEndian ?vs (Message 1))) < 2 ^ 64"
    by (simp add: Message_def push_T_def push_string_def obj_rep_def le_bytes_numeral)
  have t: "[TScalar 4, TString, TString] = map type_of_val ?vs"
    by simp
  show ?thesis
    unfolding t by (rule C1_roundtrip [OF h1 h2])
qed

lemma pop_T_scalar:
  assumes "readPos m \<le> length (buffer m)" "length (buffer m) + n < 2 ^ 64"
  shows "(fst (pop_T n m) = Inl DeserializationFailed \<longleftrightarrow> remaining m < n)"
    and "fst (pop_T n m) = Inl DeserializationFailed \<Longrightarrow> snd (pop_T n m) = m"
    and "fst (pop_T n m) \<noteq> Inl DeserializationFailed \<Longrightarrow>
           pop_T n m = (Inr (take n (drop (readPos m) (buffer m))), m\<lparr>readPos := readPos m + n\<rparr>)"
proof -
  have "readPos m + n < 2 ^ 64" using assms by simp
  then have sa: "size_add (readPos m) n = readPos m + n" by (simp add: size_add_small)
  show "(fst (pop_T n m) = Inl DeserializationFailed \<longleftrightarrow> remaining m < n)"
    using assms(1) by (auto simp: pop_T_def sa remaining_def)
  show "fst (pop_T n m) = Inl DeserializationFailed \<Longrightarrow> snd (pop_T n m) = m"
    by (auto simp: pop_T_def split: if_splits)
  show "fst (pop_T n m) \<noteq> Inl DeserializationFailed \<Longrightarrow>
           pop_T n m = (Inr (take n (drop (readPos m) (buffer m))), m\<lparr>readPos := readPos m + n\<rparr>)"
    by (auto simp: pop_T_def sa split: if_splits)
qed

text \<open>
  Claim C2. A read leaves the cursor where it was when it raises
  \<^verbatim>\<open>DeserializationFailed\<close>. This holds for scalars (\<open>pop_T_scalar\<close>) and fails for
  strings: on a payload that holds the length 5 and then only two bytes, the string read
  raises \<^verbatim>\<open>DeserializationFailed\<close> with the cursor moved past the length, from 0 to 8.
\<close>
theorem C2_pop_string_failure_moves_cursor:
  "pop_string LittleEndian \<lparr>msgType = 1, buffer = [5, 0, 0, 0, 0, 0, 0, 0, 97, 98], readPos = 0\<rparr>
     = (Inl DeserializationFailed,
        \<lparr>msgType = 1, buffer = [5, 0, 0, 0, 0, 0, 0, 0, 97, 98], readPos = 8\<rparr>)
   \<and> pop_string BigEndian \<lparr>msgType = 1, buffer = [0, 0, 0, 0, 0, 0, 0, 5, 97, 98], readPos = 0\<rparr>
     = (Inl DeserializationFailed,
        \<lparr>msgType = 1, buffer = [0, 0, 0, 0, 0, 0, 0, 5, 97, 98], readPos = 8\<rparr>)"
  by (simp add: pop_string_def pop_T_def size_add_def obj_val_def)

text \<open>
  A length near \<open>2 ^ 64\<close> makes the bound check of the string read wrap around: fewer
  bytes remain than the read requires, and the exception is not
  \<^verbatim>\<open>DeserializationFailed\<close>.
\<close>
lemma pop_string_wraparound:
  "pop_string host \<lparr>msgType = 1, buffer = [255, 255, 255, 255, 255, 255, 255, 255], readPos = 0\<rparr>
     = (Inl LengthError,
        \<lparr>msgType = 1, buffer = [255, 255, 255, 255, 255, 255, 255, 255], readPos = 8\<rparr>)"
  by (cases host) (simp_all add: pop_string_def pop_T_def size_add_def obj_val_def)

text \<open>
  Claim C3. On fewer than four bytes \<open>deserialize\<close> raises \<^verbatim>\<open>DeserializationFailed\<close> and
  leaves the message as it was: type, payload and cursor. On four bytes or more it
  returns, the type is the integer that the first four bytes represent, the payload is
  the rest, and the cursor is zero.
\<close>
theorem C3_deserialize:
  "(length data < 4 \<longrightarrow> deserialize host data m = (Inl DeserializationFailed, m)) \<and>
   (4 \<le> length data \<longrightarrow>
      fst (deserialize host data m) = Inr () \<and>
      obj_rep host 4 (msgType (snd (deserialize host data m))) = take 4 data \<and>
      msgType (snd (deserialize host data m)) = obj_val host (take 4 data) \<and>
      buffer (snd (deserialize host data m)) = drop 4 data \<and>
      readPos (snd (deserialize host data m)) = 0)"
  by (simp add: deserialize_def obj_rep_obj_val)

theorem C3_deserialize_witness:
  "deserialize LittleEndian [1, 0, 0] \<lparr>msgType = 9, buffer = [5, 6], readPos = 1\<rparr>
     = (Inl DeserializationFailed, \<lparr>msgType = 9, buffer = [5, 6], readPos = 1\<rparr>) \<and>
   snd (deserialize LittleEndian [7, 1, 0, 0, 42] \<lparr>msgType = 9, buffer = [5, 6], readPos = 1\<rparr>)
     = \<lparr>msgType = 263, buffer = [42], readPos = 0\<rparr>"
  using C3_deserialize [of "[1, 0, 0]" LittleEndian "\<lparr>msgType = 9, buffer = [5, 6], readPos = 1\<rparr>"]
    C3_deserialize [of "[7, 1, 0, 0, 42]" LittleEndian "\<lparr>msgType = 9, buffer = [5, 6], readPos = 1\<rparr>"]
  by (simp add: deserialize_def obj_val_def)

text \<open>
  Claim C10, as amended. A copy-constructed message has the type and the payload of its
  source and a cursor of zero. Copy-assignment from a different object gives the
  destination the type and the payload of the source and a cursor of zero, and leaves
  the source as it was. Assigning a message to itself leaves it unchanged, cursor
  included.
\<close>
theorem C10_copy_resets_cursor:
  "msgType (Message_copy m) = msgType m \<and> buffer (Message_copy m) = buffer m \<and>
   readPos (Message_copy m) = 0 \<and>
   (this \<noteq> other \<longrightarrow>
      msgType (Message_assign h this other this) = msgType (h other) \<and>
      buffer (Message_assign h this other this) = buffer (h other) \<and>
      readPos (Message_assign h this other this) = 0 \<and>
      Message_assign h this other other = h other) \<and>
   Message_assign h this this = h"
  by (simp add: Message_copy_def Message_assign_def)

theorem C10_copy_resets_cursor_witness:
  "readPos (Message_copy \<lparr>msgType = 1, buffer = [7, 0, 0, 0], readPos = 4\<rparr>) = 0 \<and>
   (0::nat) \<noteq> 1 \<and> readPos (Message_assign aliased_store 0 1 0) = 0 \<and>
   readPos (Message_assign aliased_store 0 1 1) = 4"
  using C10_copy_resets_cursor [of "\<lparr>msgType = 1, buffer = [7, 0, 0, 0], readPos = 4\<rparr>" 0 1 aliased_store]
  by (simp add: aliased_store_def)

text \<open>
  The claim as written fails for self-assignment: the message at address 0 has read
  four bytes, and after being assigned to itself its cursor is still not zero.
\<close>
theorem C10_self_assignment_counterexample:
  "0 < readPos (aliased_store 0) \<and> readPos (Message_assign aliased_store 0 0 0) \<noteq> 0"
  by (simp add: Message_assign_def aliased_store_def)

section \<open>Properties of the client and the server\<close>

lemma msgType_copy: "msgType (Message_copy m) = msgType m"
  by (simp add: Message_copy_def)

lemma Client_update_loop_messages:
  "map snd (Client_update_loop acts q)
     = map Message_copy (filter (\<lambda>m. registered acts (msgType m)) q)"
  by (induction q) (auto simp: registered_def msgType_copy Let_def split: option.splits)

lemma Client_update_loop_callbacks:
  "x \<in> set (Client_update_loop acts q) \<Longrightarrow> acts (msgType (snd x)) = Some (Some (fst x))"
  by (induction q) (auto simp: msgType_copy Let_def split: option.splits)

lemma Server_update_loop_messages:
  "map snd (Server_update_loop acts q)
     = filter (\<lambda>p. registered acts (msgType (snd p))) q"
  by (induction q) (auto simp: registered_def Let_def split: option.splits)

lemma Server_update_loop_callbacks:
  "x \<in> set (Server_update_loop acts q) \<Longrightarrow> acts (msgType (snd (snd x))) = Some (Some (fst x))"
  by (induction q) (auto simp: Let_def split: option.splits)

text \<open>
  Claim C4. On a connected client \<open>update\<close> returns, and the calls it makes are exactly
  these: for the received messages whose type has a callback, in the order of the queue,
  the callback registered for the type, on a copy of the message; messages without a
  callback are skipped. The queue is empty afterwards, so a second \<open>update\<close> makes no
  call. On a client that is not connected \<open>update\<close> raises \<^verbatim>\<open>NotConnected\<close>. The same
  holds for a running server and its queue of (identifier, message) pairs, with
  \<^verbatim>\<open>NotStarted\<close>.
\<close>
theorem C4_update_dispatches_queue:
  "(isConnected c \<longrightarrow>
      Client_update c = (Inr (Client_update_loop (actions c) (receivedMessages c)),
                         c\<lparr>receivedMessages := []\<rparr>) \<and>
      map snd (Client_update_loop (actions c) (receivedMessages c))
        = map Message_copy (filter (\<lambda>m. registered (actions c) (msgType m)) (receivedMessages c)) \<and>
      (\<forall>x \<in> set (Client_update_loop (actions c) (receivedMessages c)).
         actions c (msgType (snd x)) = Some (Some (fst x))) \<and>
      Client_update (snd (Client_update c)) = (Inr [], snd (Client_update c))) \<and>
   (\<not> isConnected c \<longrightarrow> Client_update c = (Inl NotConnected, c)) \<and>
   (isRunning s \<longrightarrow>
      Server_update s = (Inr (Server_update_loop (srvActions s) (srvReceivedMessages s)),
                         s\<lparr>srvReceivedMessages := []\<rparr>) \<and>
      map snd (Server_update_loop (srvActions s) (srvReceivedMessages s))
        = filter (\<lambda>p. registered (srvActions s) (msgType (snd p))) (srvReceivedMessages s) \<and>
      (\<forall>x \<in> set (Server_update_loop (srvActions s) (srvReceivedMessages s)).
         srvActions s (msgType (snd (snd x))) = Some (Some (fst x))) \<and>
      Server_update (snd (Server_update s)) = (Inr [], snd (Server_update s))) \<and>
   (\<not> isRunning s \<longrightarrow> Server_update s = (Inl NotStarted, s))"
  by (simp add: Client_update_def Server_update_def Client_update_loop_messages
      Client_update_loop_callbacks Server_update_loop_messages Server_update_loop_callbacks)

lemma receiverLoop_send_flags:
  "isConnected (fst (state_after (receiverLoop_send host (c, sk)))) = isConnected c \<and>
   (shouldStop c \<longrightarrow> shouldStop (fst (state_after (receiverLoop_send host (c, sk))))) \<and>
   sockfd (fst (state_after (receiverLoop_send host (c, sk)))) = sockfd c \<and>
   receiverThread (fst (state_after (receiverLoop_send host (c, sk)))) = receiverThread c"
  by (simp add: receiverLoop_send_def Client_sendMessage_def Let_def state_after_def
      split: connection.splits)

lemma receiverLoop_recv_flags:
  "isConnected (fst (state_after (receiverLoop_recv host (c, sk)))) = isConnected c \<and>
   (shouldStop c \<longrightarrow> shouldStop (fst (state_after (receiverLoop_recv host (c, sk))))) \<and>
   sockfd (fst (state_after (receiverLoop_recv host (c, sk)))) = sockfd c \<and>
   receiverThread (fst (state_after (receiverLoop_recv host (c, sk)))) = receiverThread c"
proof -
  obtain r sk1 where rf: "recv_frame host sk = (r, sk1)" by (cases "recv_frame host sk")
  show ?thesis
    by (cases r) (simp_all add: receiverLoop_recv_def rf state_after_def)
qed

lemma receiverLoop_body_flags:
  "isConnected (fst (state_after (receiverLoop_body host (c, sk)))) = isConnected c \<and>
   (shouldStop c \<longrightarrow> shouldStop (fst (state_after (receiverLoop_body host (c, sk))))) \<and>
   sockfd (fst (state_after (receiverLoop_body host (c, sk)))) = sockfd c \<and>
   receiverThread (fst (state_after (receiverLoop_body host (c, sk)))) = receiverThread c"
proof (cases "receiverLoop_send host (c, sk)")
  case (Continue cs1)
  obtain c1 sk1 where cs1: "cs1 = (c1, sk1)" by (cases cs1)
  have "c1 = fst (state_after (receiverLoop_send host (c, sk)))"
    by (simp add: Continue cs1 state_after_def)
  then have "isConnected c1 = isConnected c" "shouldStop c \<longrightarrow> shouldStop c1"
    "sockfd c1 = sockfd c" "receiverThread c1 = receiverThread c"
    using receiverLoop_send_flags [of host c sk] by simp_all
  then show ?thesis
    using receiverLoop_recv_flags [of host c1 sk1]
    by (simp add: receiverLoop_body_def Continue cs1)
next
  case (Break cs1)
  then show ?thesis
    using receiverLoop_send_flags [of host c sk] by (simp add: receiverLoop_body_def)
next
  case (Blocked cs1)
  then show ?thesis
    using receiverLoop_send_flags [of host c sk] by (simp add: receiverLoop_body_def)
next
  case (Abort cs1)
  then show ?thesis
    using receiverLoop_send_flags [of host c sk] by (simp add: receiverLoop_body_def)
qed

lemma receiverLoop_rest_flags:
  "isConnected (fst (state_after (receiverLoop_rest host pos (c, sk)))) = isConnected c \<and>
   (shouldStop c \<longrightarrow> shouldStop (fst (state_after (receiverLoop_rest host pos (c, sk))))) \<and>
   sockfd (fst (state_after (receiverLoop_rest host pos (c, sk)))) = sockfd c \<and>
   receiverThread (fst (state_after (receiverLoop_rest host pos (c, sk)))) = receiverThread c"
  using receiverLoop_body_flags [of host c sk] receiverLoop_recv_flags [of host c sk]
  by (cases pos) (simp_all add: receiverLoop_rest_def state_after_def)

text \<open>On a client that is not connected \<open>disconnect\<close> does nothing.\<close>

lemma Client_disconnect_not_connected:
  "\<not> isConnected c \<Longrightarrow> Client_disconnect host pos (c, sk) = Returns ([], c, sk)"
  by (simp add: Client_disconnect_def)

text \<open>
  When \<open>disconnect\<close> returns on a connected client, it has done what it is meant to do:
  the stop flag is set, the thread has been joined if there was one, the socket is
  closed, both queues are empty, \<open>send\<close> and \<open>update\<close> raise \<^verbatim>\<open>NotConnected\<close>, and another
  \<open>disconnect\<close> does nothing.
\<close>

lemma Client_disconnect_returns:
  assumes con: "isConnected c"
    and ret: "Client_disconnect host pos (c, sk) = Returns (calls, c', sk')"
  shows "calls = (if receiverThread c then [ThreadJoin] else []) @ [Close (sockfd c)] \<and>
         shouldStop c' \<and> \<not> isConnected c' \<and> \<not> receiverThread c' \<and> sockfd c' = - 1 \<and>
         receivedMessages c' = [] \<and> messagesToSend c' = [] \<and>
         Client_send message c' = (Inl NotConnected, c') \<and>
         Client_update c' = (Inl NotConnected, c') \<and>
         Client_disconnect host pos' (c', sk') = Returns ([], c', sk')"
proof -
  define c1 where "c1 = c\<lparr>shouldStop := True, isConnected := False\<rparr>"
  have main: "calls = (if receiverThread c then [ThreadJoin] else []) @ [Close (sockfd c)] \<and>
         shouldStop c' \<and> \<not> isConnected c' \<and> \<not> receiverThread c' \<and> sockfd c' = - 1 \<and>
         receivedMessages c' = [] \<and> messagesToSend c' = []"
  proof (cases "receiverThread c")
    case False
    then show ?thesis
      using con ret by (auto simp: Client_disconnect_def Let_def)
  next
    case True
    define r where "r = receiverLoop_rest host pos (c1, sk)"
    have fl: "shouldStop (fst (state_after r))" "sockfd (fst (state_after r)) = sockfd c"
      using receiverLoop_rest_flags [of host pos c1 sk] by (simp_all add: r_def c1_def)
    have d: "Client_disconnect host pos (c, sk) =
           (case r of
              Continue cs2 \<Rightarrow>
                Returns ([ThreadJoin, Close (sockfd (fst cs2))],
                         (fst cs2)\<lparr>isConnected := False, receiverThread := False, sockfd := - 1,
                                   receivedMessages := [], messagesToSend := []\<rparr>,
                         snd cs2)
            | Break cs2 \<Rightarrow>
                Returns ([ThreadJoin, Close (sockfd (fst cs2))],
                         (fst cs2)\<lparr>isConnected := False, receiverThread := False, sockfd := - 1,
                                   receivedMessages := [], messagesToSend := []\<rparr>,
                         snd cs2)
            | Blocked cs2 \<Rightarrow> Hangs
            | Abort cs2 \<Rightarrow> Terminates)"
      using con True by (simp add: Client_disconnect_def Let_def r_def c1_def)
    show ?thesis
      using ret fl True unfolding d by (cases r) (auto simp: state_after_def)
  qed
  then show ?thesis
    by (simp add: Client_send_def Client_update_def Client_disconnect_def)
qed

text \<open>
  On a connected client with a receiver thread, \<open>disconnect\<close> returns exactly when the
  thread finishes its iteration, and never returns exactly when the thread waits in
  \<^verbatim>\<open>recv\<close>.
\<close>

lemma Client_disconnect_outcome:
  assumes "isConnected c" "receiverThread c"
  shows "Client_disconnect host pos (c, sk) =
           (case receiverLoop_rest host pos (c\<lparr>shouldStop := True, isConnected := False\<rparr>, sk) of
              Continue cs2 \<Rightarrow>
                Returns ([ThreadJoin, Close (sockfd c)],
                         (fst cs2)\<lparr>isConnected := False, receiverThread := False, sockfd := - 1,
                                   receivedMessages := [], messagesToSend := []\<rparr>,
                         snd cs2)
            | Break cs2 \<Rightarrow>
                Returns ([ThreadJoin, Close (sockfd c)],
                         (fst cs2)\<lparr>isConnected := False, receiverThread := False, sockfd := - 1,
                                   receivedMessages := [], messagesToSend := []\<rparr>,
                         snd cs2)
            | Blocked cs2 \<Rightarrow> Hangs
            | Abort cs2 \<Rightarrow> Terminates)"
proof -
  define r where "r = receiverLoop_rest host pos (c\<lparr>shouldStop := True, isConnected := False\<rparr>, sk)"
  have "sockfd (fst (state_after r)) = sockfd c"
    using receiverLoop_rest_flags [of host pos "c\<lparr>shouldStop := True, isConnected := False\<rparr>" sk]
    by (simp add: r_def)
  then show ?thesis
    using assms unfolding Client_disconnect_def Let_def fst_conv snd_conv r_def [symmetric]
    by (cases r) (simp_all add: state_after_def)
qed

text \<open>
  The read of the length waits as long as the connection is open and fewer than 8 bytes
  have arrived; the read of the frame, as long as fewer bytes than the length says have
  arrived.
\<close>

lemma recv_frame_waits_for_length:
  "conn sk = Open \<Longrightarrow> incoming sk \<noteq> [] \<Longrightarrow> length (incoming sk) < 8 \<Longrightarrow>
   recv_frame host sk = (Waiting, sk)"
  by (simp add: recv_frame_def)

lemma Client_disconnect_waits:
  assumes "isConnected c" "receiverThread c" "pos \<noteq> AtLoopTest"
    and "messagesToSend c = [] \<or> pos = BeforeReceive"
    and "conn sk = Open" "incoming sk \<noteq> []" "length (incoming sk) < 8"
  shows "Client_disconnect host pos (c, sk) = Hangs"
proof -
  define c1 where "c1 = c\<lparr>shouldStop := True, isConnected := False\<rparr>"
  have rv: "receiverLoop_recv host (c1, sk) = Blocked (c1, sk)"
    using assms(5-7) by (simp add: receiverLoop_recv_def recv_frame_waits_for_length)
  have "receiverLoop_rest host pos (c1, sk) = Blocked (c1, sk)"
  proof (cases pos)
    case AtLoopTest
    then show ?thesis using assms(3) by simp
  next
    case BeforeSend
    then have "messagesToSend c1 = []" using assms(4) by (simp add: c1_def)
    then have "receiverLoop_send host (c1, sk) = Continue (c1, sk)"
      by (simp add: receiverLoop_send_def)
    then show ?thesis
      using BeforeSend rv by (simp add: receiverLoop_rest_def receiverLoop_body_def)
  next
    case BeforeReceive
    then show ?thesis using rv by (simp add: receiverLoop_rest_def)
  qed
  then show ?thesis
    using assms(1,2) by (simp add: Client_disconnect_outcome c1_def)
qed

text \<open>
  On an idle connection the thread is in \<^verbatim>\<open>select\<close>, which times out, and \<open>disconnect\<close>
  returns.
\<close>

lemma Client_disconnect_idle:
  "Client_disconnect LittleEndian BeforeReceive (example_client, example_socket)
     = Returns ([ThreadJoin, Close 3],
                example_client\<lparr>shouldStop := True, isConnected := False, receiverThread := False,
                               sockfd := - 1, receivedMessages := [], messagesToSend := []\<rparr>,
                example_socket)"
  by (simp add: Client_disconnect_def receiverLoop_rest_def receiverLoop_recv_def recv_frame_def
      example_client_def example_socket_def)

text \<open>
  Claim C8. On a client that is not connected \<open>disconnect\<close> does nothing. On a connected
  client it should set the stop flag, join the receiver thread, close the socket and
  leave both queues empty, in every state. It does not in this one: the client is
  connected, 3 of the 8 bytes of a length have arrived, the connection is open and the
  peer sends nothing more, so the receiver thread waits in
  \<^verbatim>\<open>recv(..., MSG_WAITALL)\<close>. There \<open>disconnect\<close> sets the flags and waits for the
  thread, which never looks at them: the call does not return, the socket is not closed
  and the queues are not emptied.
\<close>
theorem C8_disconnect_hangs:
  "isConnected example_client \<and> receiverThread example_client \<and>
   recv_frame LittleEndian partial_header = (Waiting, partial_header) \<and>
   Client_disconnect LittleEndian BeforeReceive (example_client, partial_header) = Hangs \<and>
   Client_disconnect LittleEndian BeforeSend (example_client, partial_header) = Hangs"
  by (simp add: Client_disconnect_def receiverLoop_rest_def receiverLoop_body_def
      receiverLoop_send_def receiverLoop_recv_def Client_sendMessage_def recv_frame_def
      example_client_def partial_header_def Let_def)

lemma queue_of_queue_push:
  "queue_of (queue_push k message mts) j
     = (if j = k then queue_of mts k @ [Message_copy message] else queue_of mts j)"
  by (simp add: queue_of_def queue_push_def)

text \<open>
  Claim C6. \<open>sendTo\<close> raises \<^verbatim>\<open>NotStarted\<close> on a server that is not running and
  \<^verbatim>\<open>UnknownClient\<close> on a running server whose client table does not hold the
  identifier, and in both cases leaves the whole server state as it was. When the table
  holds the identifier, a copy of the message is appended to that client's outbound
  queue; no other queue and no other part of the state changes.
\<close>
theorem C6_sendTo:
  "(\<not> isRunning s \<longrightarrow> Server_sendTo message clientID s = (Inl NotStarted, s)) \<and>
   (isRunning s \<and> \<not> known s clientID \<longrightarrow> Server_sendTo message clientID s = (Inl UnknownClient, s)) \<and>
   (isRunning s \<and> known s clientID \<longrightarrow>
      fst (Server_sendTo message clientID s) = Inr () \<and>
      snd (Server_sendTo message clientID s)
        = s\<lparr>srvMessagesToSend := srvMessagesToSend (snd (Server_sendTo message clientID s))\<rparr> \<and>
      srvMessagesToSend (snd (Server_sendTo message clientID s)) clientID
        = Some (queue_of (srvMessagesToSend s) clientID @ [Message_copy message]) \<and>
      (\<forall>other. other \<noteq> clientID \<longrightarrow>
         srvMessagesToSend (snd (Server_sendTo message clientID s)) other = srvMessagesToSend s other))"
  by (simp add: Server_sendTo_def known_def queue_push_def queue_of_def)

lemma fold_queue_push:
  "fold (\<lambda>k. queue_push k message) ks mts j
     = (if j \<in> set ks
        then Some (queue_of mts j @ replicate (count_list ks j) (Message_copy message))
        else mts j)"
proof (induction ks arbitrary: mts)
  case Nil
  then show ?case by simp
next
  case (Cons k ks)
  show ?case
    by (simp add: Cons.IH queue_of_queue_push replicate_append_same)
       (simp add: queue_push_def queue_of_def)
qed

lemma Server_sendToArray_loop_eq:
  "isRunning s \<Longrightarrow>
   Server_sendToArray_loop message ids err s
     = (Inr (err \<or> (\<exists>k \<in> set ids. \<not> known s k)),
        s\<lparr>srvMessagesToSend :=
            fold (\<lambda>k. queue_push k message) (filter (known s) ids) (srvMessagesToSend s)\<rparr>)"
proof (induction ids arbitrary: err s)
  case Nil
  then show ?case by simp
next
  case (Cons k ids)
  show ?case
  proof (cases "known s k")
    case True
    let ?s1 = "s\<lparr>srvMessagesToSend := queue_push k message (srvMessagesToSend s)\<rparr>"
    have st: "Server_sendTo message k s = (Inr (), ?s1)"
      using True Cons.prems by (simp add: Server_sendTo_def known_def)
    have kn: "known ?s1 = known s" by (simp add: known_def fun_eq_iff)
    have "isRunning ?s1" using Cons.prems by simp
    from Cons.IH [OF this, of err] show ?thesis
      using True by (simp add: st kn)
  next
    case False
    have st: "Server_sendTo message k s = (Inl UnknownClient, s)"
      using False Cons.prems by (simp add: Server_sendTo_def known_def)
    from Cons.IH [OF Cons.prems, of True] show ?thesis
      using False by (simp add: st)
  qed
qed

lemma Server_sendToAll_loop_eq:
  "Server_sendToAll_loop message cl err mts
     = (err, fold (\<lambda>k. queue_push k message) (map fst cl) mts)"
  by (induction cl arbitrary: mts) simp_all

lemma count_list_distinct: "distinct ks \<Longrightarrow> j \<in> set ks \<Longrightarrow> count_list ks j = 1"
  by (induction ks) auto

lemma known_iff: "known s k \<longleftrightarrow> k \<in> fst ` set (clients s)"
  by (simp add: known_def map_of_eq_None_iff)

text \<open>
  Claim C7. On a running server \<open>sendToArray\<close> raises \<^verbatim>\<open>BatchSendingFailed\<close> exactly when
  some identifier of the list is not in the client table. Whether it raises or not, every
  identifier of the list that is in the table has the message appended to its queue, once
  per occurrence in the list, also after an unknown identifier; every other queue and the
  rest of the state are unchanged. \<open>sendToAll\<close> returns normally and appends the message
  to the queue of every client in the table, and to no other. On a server that is not
  running both raise \<^verbatim>\<open>NotStarted\<close> and change nothing.
\<close>
theorem C7_batch_send:
  "(isRunning s \<longrightarrow>
      (fst (Server_sendToArray message ids s) = Inl BatchSendingFailed
         \<longleftrightarrow> (\<exists>k \<in> set ids. \<not> known s k)) \<and>
      ((\<forall>k \<in> set ids. known s k) \<longrightarrow> fst (Server_sendToArray message ids s) = Inr ()) \<and>
      snd (Server_sendToArray message ids s)
        = s\<lparr>srvMessagesToSend := srvMessagesToSend (snd (Server_sendToArray message ids s))\<rparr> \<and>
      (\<forall>k. srvMessagesToSend (snd (Server_sendToArray message ids s)) k
           = (if k \<in> set ids \<and> known s k
              then Some (queue_of (srvMessagesToSend s) k
                         @ replicate (count_list ids k) (Message_copy message))
              else srvMessagesToSend s k)) \<and>
      fst (Server_sendToAll message s) = Inr () \<and>
      snd (Server_sendToAll message s)
        = s\<lparr>srvMessagesToSend := srvMessagesToSend (snd (Server_sendToAll message s))\<rparr> \<and>
      (distinct (map fst (clients s)) \<longrightarrow>
         (\<forall>k. srvMessagesToSend (snd (Server_sendToAll message s)) k
              = (if known s k
                 then Some (queue_of (srvMessagesToSend s) k @ [Message_copy message])
                 else srvMessagesToSend s k)))) \<and>
   (\<not> isRunning s \<longrightarrow>
      Server_sendToArray message ids s = (Inl NotStarted, s) \<and>
      Server_sendToAll message s = (Inl NotStarted, s))"
proof -
  have cnt: "count_list (filter (known s) ids) k = count_list ids k" if "known s k" for k
    using that by (induction ids) auto
  have arr: "srvMessagesToSend (snd (Server_sendToArray message ids s)) k
           = (if k \<in> set ids \<and> known s k
              then Some (queue_of (srvMessagesToSend s) k
                         @ replicate (count_list ids k) (Message_copy message))
              else srvMessagesToSend s k)" if "isRunning s" for k
    using that by (auto simp: Server_sendToArray_def Server_sendToArray_loop_eq fold_queue_push cnt)
  have all: "srvMessagesToSend (snd (Server_sendToAll message s)) k
              = (if known s k
                 then Some (queue_of (srvMessagesToSend s) k @ [Message_copy message])
                 else srvMessagesToSend s k)" if "isRunning s" "distinct (map fst (clients s))" for k
    using that
    by (auto simp: Server_sendToAll_def Server_sendToAll_loop_eq fold_queue_push known_iff
        count_list_distinct)
  have rest: "isRunning s \<Longrightarrow>
      (fst (Server_sendToArray message ids s) = Inl BatchSendingFailed
         \<longleftrightarrow> (\<exists>k \<in> set ids. \<not> known s k)) \<and>
      ((\<forall>k \<in> set ids. known s k) \<longrightarrow> fst (Server_sendToArray message ids s) = Inr ()) \<and>
      snd (Server_sendToArray message ids s)
        = s\<lparr>srvMessagesToSend := srvMessagesToSend (snd (Server_sendToArray message ids s))\<rparr> \<and>
      fst (Server_sendToAll message s) = Inr () \<and>
      snd (Server_sendToAll message s)
        = s\<lparr>srvMessagesToSend := srvMessagesToSend (snd (Server_sendToAll message s))\<rparr>"
    by (auto simp: Server_sendToArray_def Server_sendToArray_loop_eq Server_sendToAll_def
        Server_sendToAll_loop_eq)
  have stopped: "\<not> isRunning s \<Longrightarrow>
      Server_sendToArray message ids s = (Inl NotStarted, s) \<and>
      Server_sendToAll message s = (Inl NotStarted, s)"
    by (simp add: Server_sendToArray_def Server_sendToAll_def)
  show ?thesis
    using arr all rest stopped by blast
qed

lemma wrap_ll_id: "- (2 ^ 63) \<le> x \<Longrightarrow> x < 2 ^ 63 \<Longrightarrow> wrap_ll x = x"
  by (simp add: wrap_ll_def)

lemma nextClientID_sendTo: "nextClientID (snd (Server_sendTo message k s)) = nextClientID s"
  by (simp add: Server_sendTo_def)

lemma nextClientID_sendToArray_loop:
  "nextClientID (snd (Server_sendToArray_loop message ids err s)) = nextClientID s"
proof (induction ids arbitrary: err s)
  case Nil
  then show ?case by simp
next
  case (Cons k ids)
  show ?case
    by (cases "Server_sendTo message k s")
       (use Cons.IH nextClientID_sendTo [of message k s] in \<open>auto split: sum.splits\<close>)
qed

lemma nextClientID_sendToArray:
  "nextClientID (snd (Server_sendToArray message ids s)) = nextClientID s"
  using nextClientID_sendToArray_loop [of message ids False s]
  by (auto simp: Server_sendToArray_def split: prod.splits sum.splits)

lemma nextClientID_sendToAll: "nextClientID (snd (Server_sendToAll message s)) = nextClientID s"
  by (simp add: Server_sendToAll_def split: prod.splits)

lemma nextClientID_update: "nextClientID (snd (Server_update s)) = nextClientID s"
  by (simp add: Server_update_def)

lemma step_not_accepted:
  "\<not> accepted e \<Longrightarrow> fst (step e s) = [] \<and> nextClientID (snd (step e s)) = nextClientID s"
  by (cases e)
     (simp_all add: acceptorLoop_accept_def remove_client_def nextClientID_sendTo
       nextClientID_sendToArray nextClientID_sendToAll nextClientID_update)

lemma step_accepted:
  "accepted e \<Longrightarrow> fst (step e s) = [nextClientID s] \<and>
     nextClientID (snd (step e s)) = wrap_ll (nextClientID s + 1)"
  by (cases e) (simp_all add: acceptorLoop_accept_def Let_def)

lemma fst_run_Cons: "fst (run (e # evs) s) = fst (step e s) @ fst (run evs (snd (step e s)))"
  by (cases "step e s"; cases "run evs (snd (step e s))") simp

lemma run_no_accept: "filter accepted evs = [] \<Longrightarrow> fst (run evs s) = []"
proof (induction evs arbitrary: s)
  case Nil
  then show ?case by simp
next
  case (Cons e evs)
  then have "\<not> accepted e" "filter accepted evs = []" by (auto split: if_splits)
  then show ?case
    using step_not_accepted [of e s] Cons.IH [of "snd (step e s)"]
    by (simp add: fst_run_Cons del: run.simps)
qed

lemma run_ids:
  "0 \<le> nextClientID s \<Longrightarrow> nextClientID s + int (length (filter accepted evs)) \<le> 2 ^ 63 \<Longrightarrow>
   fst (run evs s) = map (\<lambda>i. nextClientID s + int i) [0..<length (filter accepted evs)]"
proof (induction evs arbitrary: s)
  case Nil
  then show ?case by simp
next
  case (Cons e evs)
  let ?s1 = "snd (step e s)"
  let ?n = "length (filter accepted evs)"
  have r: "fst (run (e # evs) s) = fst (step e s) @ fst (run evs ?s1)"
    by (rule fst_run_Cons)
  show ?case
  proof (cases "accepted e")
    case False
    then show ?thesis
      using step_not_accepted [of e s] Cons.IH [of ?s1] Cons.prems by (simp add: r del: run.simps)
  next
    case True
    note acc = step_accepted [OF True, of s]
    show ?thesis
    proof (cases "?n = 0")
      case True
      then have "fst (run evs ?s1) = []" by (simp add: run_no_accept)
      then show ?thesis using acc \<open>accepted e\<close> True by (simp add: r del: run.simps)
    next
      case False
      then have pos: "1 \<le> int ?n" by linarith
      have "nextClientID s + (1 + int ?n) \<le> 2 ^ 63"
        using Cons.prems(2) \<open>accepted e\<close> by simp
      with pos have "nextClientID s + 1 < 2 ^ 63" by linarith
      then have nx: "nextClientID ?s1 = nextClientID s + 1"
        using acc Cons.prems by (simp add: wrap_ll_id)
      have "fst (run evs ?s1) = map (\<lambda>i. nextClientID ?s1 + int i) [0..<?n]"
        by (rule Cons.IH) (use Cons.prems nx \<open>accepted e\<close> in simp_all)
      then have "fst (run evs ?s1) = map (\<lambda>i. nextClientID s + int (Suc i)) [0..<?n]"
        by (simp add: nx add.assoc)
      also have "\<dots> = map (\<lambda>i. nextClientID s + int i) (map Suc [0..<?n])"
        by (simp add: comp_def)
      also have "map Suc [0..<?n] = [Suc 0..<Suc ?n]"
        by (simp add: map_Suc_upt)
      finally have tl: "fst (run evs ?s1) = map (\<lambda>i. nextClientID s + int i) [Suc 0..<Suc ?n]" .
      have "[0..<Suc ?n] = 0 # [Suc 0..<Suc ?n]" by (simp add: upt_rec)
      then show ?thesis
        using acc \<open>accepted e\<close> by (simp add: r tl del: upt_Suc run.simps)
    qed
  qed
qed

text \<open>
  Claim C5. From a server whose next identifier is 1, as the constructor leaves it, and
  over any sequence of events with fewer than \<open>2 ^ 63\<close> accepted connections, the
  identifiers assigned are 1, 2, ..., N in this order: strictly increasing from 1 and
  pairwise distinct. Removals of clients between two accepts do not change this, so an
  identifier is not assigned again after its client has left the table.
\<close>
theorem C5_client_ids:
  assumes "nextClientID s = 1" and "int (length (filter accepted evs)) < 2 ^ 63"
  shows "fst (run evs s) = map int [1..<Suc (length (filter accepted evs))] \<and>
         sorted_wrt (<) (fst (run evs s)) \<and>
         distinct (fst (run evs s))"
proof -
  let ?n = "length (filter accepted evs)"
  have "fst (run evs s) = map (\<lambda>i. 1 + int i) [0..<?n]"
    using run_ids [of s evs] assms by simp
  also have "\<dots> = map int (map Suc [0..<?n])" by (simp add: comp_def)
  also have "map Suc [0..<?n] = [1..<Suc ?n]" by (simp add: map_Suc_upt)
  finally have ids: "fst (run evs s) = map int [1..<Suc ?n]" .
  have "sorted_wrt (<) (fst (run evs s))"
    unfolding ids by (simp add: sorted_wrt_map del: upt_Suc)
  moreover have "distinct (fst (run evs s))"
    unfolding ids by (simp add: distinct_map inj_on_def del: upt_Suc)
  ultimately show ?thesis using ids by simp
qed

theorem C4_update_dispatches_queue_witness:
  "isConnected example_client \<and> isRunning example_server \<and>
   Client_update example_client
     = (Inr [(10, Message 1), (10, Message 1)], example_client\<lparr>receivedMessages := []\<rparr>) \<and>
   Server_update example_server
     = (Inr [(10, 1, Message 1), (10, 2, Message 1)], example_server\<lparr>srvReceivedMessages := []\<rparr>)"
proof -
  have hc: "isConnected example_client" by (simp add: example_client_def)
  have hs: "isRunning example_server" by (simp add: example_server_def)
  have lc: "Client_update_loop (actions example_client) (receivedMessages example_client)
              = [(10, Message 1), (10, Message 1)]"
    by (simp add: example_client_def Message_def Message_copy_def Let_def)
  have ls: "Server_update_loop (srvActions example_server) (srvReceivedMessages example_server)
              = [(10, 1, Message 1), (10, 2, Message 1)]"
    by (simp add: example_server_def Message_def Let_def)
  from C4_update_dispatches_queue [of example_client example_server] hc hs
  have "Client_update example_client
          = (Inr (Client_update_loop (actions example_client) (receivedMessages example_client)),
             example_client\<lparr>receivedMessages := []\<rparr>)"
    and "Server_update example_server
          = (Inr (Server_update_loop (srvActions example_server) (srvReceivedMessages example_server)),
             example_server\<lparr>srvReceivedMessages := []\<rparr>)"
    by blast+
  then show ?thesis using hc hs by (simp only: lc ls simp_thms)
qed

theorem C6_sendTo_witness:
  "isRunning example_server \<and> known example_server 2 \<and> \<not> known example_server 5 \<and>
   srvMessagesToSend (snd (Server_sendTo (Message 4) 2 example_server)) 2
     = Some [Message 9, Message 4] \<and>
   Server_sendTo (Message 4) 5 example_server = (Inl UnknownClient, example_server)"
proof -
  have hs: "isRunning example_server" by (simp add: example_server_def)
  have k2: "known example_server 2" by (simp add: example_server_def known_def)
  have k5: "\<not> known example_server 5" by (simp add: example_server_def known_def)
  have q: "queue_of (srvMessagesToSend example_server) 2 @ [Message_copy (Message 4)]
             = [Message 9, Message 4]"
    by (simp add: example_server_def queue_of_def Message_def Message_copy_def)
  from C6_sendTo [of example_server "Message 4" 2] hs k2
  have a: "srvMessagesToSend (snd (Server_sendTo (Message 4) 2 example_server)) 2
          = Some (queue_of (srvMessagesToSend example_server) 2 @ [Message_copy (Message 4)])"
    by blast
  from C6_sendTo [of example_server "Message 4" 5] hs k5
  have b: "Server_sendTo (Message 4) 5 example_server = (Inl UnknownClient, example_server)"
    by blast
  show ?thesis using hs k2 k5 a b by (simp only: q simp_thms)
qed

theorem C7_batch_send_witness:
  "isRunning example_server \<and> distinct (map fst (clients example_server)) \<and>
   fst (Server_sendToArray (Message 4) [2, 5, 1, 2] example_server) = Inl BatchSendingFailed \<and>
   srvMessagesToSend (snd (Server_sendToArray (Message 4) [2, 5, 1, 2] example_server)) 2
     = Some [Message 9, Message 4, Message 4] \<and>
   srvMessagesToSend (snd (Server_sendToAll (Message 4) example_server)) 2
     = Some [Message 9, Message 4]"
proof -
  let ?ids = "[2, 5, 1, 2] :: ClientID list"
  have hs: "isRunning example_server" by (simp add: example_server_def)
  have hd: "distinct (map fst (clients example_server))" by (simp add: example_server_def)
  have k2: "known example_server 2" by (simp add: example_server_def known_def)
  have k5: "\<exists>k \<in> set ?ids. \<not> known example_server k" by (simp add: example_server_def known_def)
  have q2: "queue_of (srvMessagesToSend example_server) 2
              @ replicate (count_list ?ids 2) (Message_copy (Message 4))
             = [Message 9, Message 4, Message 4]"
    by (simp add: example_server_def queue_of_def Message_def Message_copy_def numeral_2_eq_2)
  have q1: "queue_of (srvMessagesToSend example_server) 2 @ [Message_copy (Message 4)]
             = [Message 9, Message 4]"
    by (simp add: example_server_def queue_of_def Message_def Message_copy_def)
  note t = C7_batch_send [of example_server "Message 4" ?ids]
  from t hs k5 have a: "fst (Server_sendToArray (Message 4) ?ids example_server) = Inl BatchSendingFailed"
    by blast
  from t hs have "\<forall>k. srvMessagesToSend (snd (Server_sendToArray (Message 4) ?ids example_server)) k
           = (if k \<in> set ?ids \<and> known example_server k
              then Some (queue_of (srvMessagesToSend example_server) k
                         @ replicate (count_list ?ids k) (Message_copy (Message 4)))
              else srvMessagesToSend example_server k)"
    by blast
  then have b: "srvMessagesToSend (snd (Server_sendToArray (Message 4) ?ids example_server)) 2
           = Some [Message 9, Message 4, Message 4]"
    using k2 q2 by simp
  from t hs hd have "\<forall>k. srvMessagesToSend (snd (Server_sendToAll (Message 4) example_server)) k
              = (if known example_server k
                 then Some (queue_of (srvMessagesToSend example_server) k @ [Message_copy (Message 4)])
                 else srvMessagesToSend example_server k)"
    by blast
  then have c: "srvMessagesToSend (snd (Server_sendToAll (Message 4) example_server)) 2
           = Some [Message 9, Message 4]"
    using k2 q1 by simp
  show ?thesis using hs hd a b c by (simp only: simp_thms)
qed

theorem C5_client_ids_witness:
  "nextClientID (Server :: nat server) = 1 \<and>
   fst (run [Accept 4, Accept (- 1), Remove 1, Accept 5, SendToAll (Message 1), Accept 4]
         (Server :: nat server)) = [1, 2, 3]"
proof -
  let ?evs = "[Accept 4, Accept (- 1), Remove 1, Accept 5, SendToAll (Message 1), Accept 4]"
  have h1: "nextClientID (Server :: nat server) = 1" by (simp add: Server_def)
  have h2: "int (length (filter accepted ?evs)) < 2 ^ 63" by simp
  have e: "map int [1..<Suc (length (filter accepted ?evs))] = [1, 2, 3]"
    by (simp add: upt_rec)
  from C5_client_ids [OF h1 h2]
  have "fst (run ?evs (Server :: nat server)) = map int [1..<Suc (length (filter accepted ?evs))]"
    by blast
  then show ?thesis using h1 by (simp only: e simp_thms)
qed

text \<open>
  The client table keeps its identifiers in order and without repetition, in every state
  that a server reaches from its constructor.
\<close>

lemma set_map_assign: "fst ` set (map_assign k v es) = insert k (fst ` set es)"
  by (induction es) auto

lemma sorted_map_assign:
  "sorted (map fst es) \<Longrightarrow> distinct (map fst es) \<Longrightarrow>
   sorted (map fst (map_assign k v es)) \<and> distinct (map fst (map_assign k v es))"
proof (induction es)
  case Nil
  then show ?case by simp
next
  case (Cons e es)
  then show ?case
    using set_map_assign [of k v es] by (auto simp: image_iff)
qed

lemma sorted_map_erase:
  "sorted (map fst es) \<Longrightarrow> distinct (map fst es) \<Longrightarrow>
   sorted (map fst (map_erase k es)) \<and> distinct (map fst (map_erase k es))"
  by (induction es) (auto simp: map_erase_def)

lemma map_of_map_assign: "map_of (map_assign k v es) = (map_of es)(k \<mapsto> v)"
  by (induction es) (auto simp: fun_eq_iff)

lemma map_of_map_erase:
  "map_of (map_erase k es) = (map_of es)(k := None)"
  by (induction es) (auto simp: map_erase_def fun_eq_iff)

lemma clients_sendToArray: "clients (snd (Server_sendToArray message ids s)) = clients s"
  by (cases "isRunning s") (simp_all add: Server_sendToArray_def Server_sendToArray_loop_eq)

lemma clients_step:
  "sorted (map fst (clients s)) \<Longrightarrow> distinct (map fst (clients s)) \<Longrightarrow>
   sorted (map fst (clients (snd (step e s)))) \<and> distinct (map fst (clients (snd (step e s))))"
proof (cases e)
  case (Accept clientSocket)
  assume "sorted (map fst (clients s))" "distinct (map fst (clients s))"
  then show ?thesis
    using Accept sorted_map_assign [of "clients s" "nextClientID s" clientSocket]
    by (simp add: acceptorLoop_accept_def Let_def)
next
  case (Remove clientID)
  assume "sorted (map fst (clients s))" "distinct (map fst (clients s))"
  then show ?thesis
    using Remove sorted_map_erase [of "clients s" clientID]
    by (simp add: remove_client_def)
next
  case (SendTo message clientID)
  assume "sorted (map fst (clients s))" "distinct (map fst (clients s))"
  then show ?thesis using SendTo by (simp add: Server_sendTo_def)
next
  case (SendToArray message ids)
  assume "sorted (map fst (clients s))" "distinct (map fst (clients s))"
  then show ?thesis using SendToArray by (simp add: clients_sendToArray)
next
  case (SendToAll message)
  assume "sorted (map fst (clients s))" "distinct (map fst (clients s))"
  then show ?thesis using SendToAll by (simp add: Server_sendToAll_def split: prod.splits)
next
  case Update
  assume "sorted (map fst (clients s))" "distinct (map fst (clients s))"
  then show ?thesis using Update by (simp add: Server_update_def)
qed

lemma snd_run_Cons: "snd (run (e # evs) s) = snd (run evs (snd (step e s)))"
  by (cases "step e s"; cases "run evs (snd (step e s))") simp

lemma clients_run:
  "sorted (map fst (clients s)) \<Longrightarrow> distinct (map fst (clients s)) \<Longrightarrow>
   sorted (map fst (clients (snd (run evs s)))) \<and> distinct (map fst (clients (snd (run evs s))))"
proof (induction evs arbitrary: s)
  case Nil
  then show ?case by simp
next
  case (Cons e evs)
  from clients_step [OF Cons.prems, of e] Cons.IH [of "snd (step e s)"]
  show ?case by (simp only: snd_run_Cons)
qed

lemma clients_unique_from_start:
  "distinct (map fst (clients (snd (run evs (Server :: 'cb server)))))"
  using clients_run [of "Server :: 'cb server" evs] by (simp add: Server_def)

section \<open>Properties of the I/O loops\<close>

lemma Message_copy_idem: "Message_copy (Message_copy m) = Message_copy m"
  by (simp add: Message_copy_def)

lemma length_serialize: "length (serialize host m) = 4 + length (buffer m)"
  by (simp add: serialize_def length_obj_rep)

lemma length_frame: "length (frame host m) = 12 + length (buffer m)"
  by (simp add: frame_def length_obj_rep length_serialize)


lemma fits_size:
  assumes "fits m"
  shows "unat (of_nat (length (serialize host m)) :: size_word) = length (serialize host m)"
    and "\<not> length (serialize host m) > vector_max_size"
    and "length (serialize host m) \<noteq> 0"
proof -
  have "length (serialize host m) \<le> vector_max_size"
    using assms by (simp add: fits_def length_serialize)
  then show "\<not> length (serialize host m) > vector_max_size" by simp
  have "vector_max_size < 2 ^ 64" by (simp add: vector_max_size_def)
  then have "length (serialize host m) < 2 ^ 64"
    using \<open>length (serialize host m) \<le> vector_max_size\<close> by linarith
  then show "unat (of_nat (length (serialize host m)) :: size_word) = length (serialize host m)"
    by (rule unat_size_of_nat)
  show "length (serialize host m) \<noteq> 0" by (simp add: length_serialize)
qed




text \<open>
  While only a part of a frame has arrived the read waits, and nothing is consumed.
\<close>

lemma recv_frame_partial:
  assumes inc: "incoming sk = take k (frame host m)" and k: "0 < k" "k < length (frame host m)"
    and nf: "conn sk = Open" and fits: "fits m"
  shows "recv_frame host sk = (Waiting, sk)"
proof (cases "k < 8")
  case True
  have "length (incoming sk) = k"
    using inc k by simp
  then have "length (incoming sk) < 8" "incoming sk \<noteq> []"
    using True k(1) by auto
  then show ?thesis using nf by (simp add: recv_frame_def)
next
  case False
  let ?ser = "serialize host m"
  let ?hdr = "obj_rep host 8 (of_nat (length ?ser) :: size_word)"
  have l8: "length ?hdr = 8" by (simp add: length_obj_rep)
  have inc': "incoming sk = ?hdr @ take (k - 8) ?ser"
    using inc False l8 by (simp add: frame_def)
  have t8: "take 8 (incoming sk) = ?hdr" using l8 by (simp add: inc')
  have d8: "drop 8 (incoming sk) = take (k - 8) ?ser" using l8 by (simp add: inc')
  have ne: "incoming sk \<noteq> []" using l8 inc' by auto
  have ge: "\<not> length (incoming sk) < 8" using l8 by (simp add: inc')
  have "(obj_val host ?hdr :: size_word) = of_nat (length ?ser)"
    by (rule obj_val_obj_rep) simp
  then have sz: "unat (obj_val host ?hdr :: size_word) = length ?ser"
    by (simp only: fits_size(1) [OF fits])
  have short: "k - 8 < length ?ser"
    using k False by (simp add: length_frame length_serialize)
  show ?thesis
    using ne ge nf short fits_size(2,3) [OF fits, of host]
    by (simp add: recv_frame_def t8 d8 sz Let_def)
qed












lemma send_all_queue:
  "isConnected a \<Longrightarrow>
   send_all msgs a = a\<lparr>messagesToSend := messagesToSend a @ map Message_copy msgs\<rparr>"
  by (induction msgs arbitrary: a) (simp_all add: Client_send_def)




lemma sendTo_all_queue:
  "isRunning s \<Longrightarrow> known s clientID \<Longrightarrow>
   queue_of (srvMessagesToSend (sendTo_all msgs clientID s)) clientID
     = queue_of (srvMessagesToSend s) clientID @ map Message_copy msgs \<and>
   clients (sendTo_all msgs clientID s) = clients s"
proof (induction msgs arbitrary: s)
  case Nil
  then show ?case by simp
next
  case (Cons m msgs)
  define s1 where "s1 = s\<lparr>srvMessagesToSend := queue_push clientID m (srvMessagesToSend s)\<rparr>"
  have st: "Server_sendTo m clientID s = (Inr (), s1)"
    using Cons.prems by (simp add: Server_sendTo_def known_def s1_def)
  have "isRunning s1" "known s1 clientID" using Cons.prems by (simp_all add: known_def s1_def)
  from Cons.IH [OF this] show ?case
    by (simp add: st) (simp add: s1_def queue_of_queue_push)
qed



text \<open>
  What goes wrong on a connection that is not open: the sending half ends the process when
  the peer has closed, and runs into undefined behaviour when \<^verbatim>\<open>send\<close> fails.
\<close>

lemma Client_sendMessage_closed:
  "conn sk = PeerClosed \<Longrightarrow> Client_sendMessage host m sk = (Inl SigPipe, sk)"
  "conn sk = ConnReset \<Longrightarrow> Client_sendMessage host m sk = (Inl SendingFailed, sk)"
  by (simp_all add: Client_sendMessage_def Let_def)

lemma acceptorLoop_send_failed:
  assumes "known s clientID" "srvMessagesToSend s clientID = Some (m # q)"
  shows "conn sk = ConnReset \<Longrightarrow>
           acceptorLoop_send host clientID (s, sk)
             = (Inl UndefinedBehaviour, remove_client clientID s, sk)"
    and "conn sk = PeerClosed \<Longrightarrow>
           acceptorLoop_send host clientID (s, sk) = (Inl SigPipe, s, sk)"
proof -
  obtain fd where "map_of (clients s) clientID = Some fd"
    using assms(1) by (auto simp: known_def)
  then show "conn sk = ConnReset \<Longrightarrow>
           acceptorLoop_send host clientID (s, sk)
             = (Inl UndefinedBehaviour, remove_client clientID s, sk)"
    and "conn sk = PeerClosed \<Longrightarrow>
           acceptorLoop_send host clientID (s, sk) = (Inl SigPipe, s, sk)"
    using assms(2) by (simp_all add: acceptorLoop_send_def Server_sendToClient_def Let_def)
qed

text \<open>
  A length above the largest size of a vector ends the process; a length of 0 with
  nothing behind it makes the thread wait.
\<close>

lemma recv_frame_length_error:
  "recv_frame host \<lparr>outgoing = [], incoming = [255, 255, 255, 255, 255, 255, 255, 255], conn = Open\<rparr>
     = (Throws LengthError, \<lparr>outgoing = [], incoming = [], conn = Open\<rparr>)"
proof -
  have "unat (obj_val host [255, 255, 255, 255, 255, 255, 255, 255 :: byte] :: size_word) > vector_max_size"
    by (cases host) (simp_all add: obj_val_def vector_max_size_def)
  then show ?thesis by (simp add: recv_frame_def Let_def)
qed

lemma recv_frame_zero_length:
  "recv_frame host \<lparr>outgoing = [], incoming = [0, 0, 0, 0, 0, 0, 0, 0], conn = Open\<rparr>
     = (Waiting, \<lparr>outgoing = [], incoming = [0, 0, 0, 0, 0, 0, 0, 0], conn = Open\<rparr>)"
proof -
  have "unat (obj_val host [0, 0, 0, 0, 0, 0, 0, 0 :: byte] :: size_word) = 0"
    by (cases host) (simp_all add: obj_val_def)
  then show ?thesis by (simp add: recv_frame_def Let_def vector_max_size_def)
qed

section \<open>Properties of a server and its clients\<close>








lemma map_copy_copies: "map Message_copy (map Message_copy ms) = map Message_copy ms"
  by (simp add: Message_copy_idem)






lemma queue_of_fold_queue_push:
  "queue_of (fold (\<lambda>k. queue_push k message) ks mts) j
     = queue_of mts j @ replicate (count_list ks j) (Message_copy message)"
proof (cases "j \<in> set ks")
  case True
  then show ?thesis by (simp add: queue_of_def fold_queue_push)
next
  case False
  then have "count_list ks j = 0" by (simp add: count_list_0_iff)
  then show ?thesis using False by (simp add: queue_of_def fold_queue_push)
qed

lemma count_list_filter:
  "count_list (filter P ks) j = (if P j then count_list ks j else 0)"
  by (induction ks) auto

lemma count_list_keys:
  "distinct ks \<Longrightarrow> count_list ks j = (if j \<in> set ks then 1 else 0)"
  by (induction ks) auto

text \<open>
  What each call of the sending interface of a running server does to the queues: the
  queue of every client of the table grows by the copies of the messages addressed to it,
  and nothing else changes.
\<close>

lemma Server_send_queues:
  assumes run: "isRunning s" and dis: "distinct (map fst (clients s))"
    and e: "e = ServerSendTo m i \<or> e = ServerSendToArray m ids \<or> e = ServerSendToAll m"
    and s'_def: "s' = (case e of ServerSendTo m i \<Rightarrow> snd (Server_sendTo m i s)
                   | ServerSendToArray m ids \<Rightarrow> snd (Server_sendToArray m ids s)
                   | ServerSendToAll m \<Rightarrow> snd (Server_sendToAll m s)
                   | _ \<Rightarrow> s)"
  shows "s' = s\<lparr>srvMessagesToSend := srvMessagesToSend s'\<rparr> \<and>
         (\<forall>j. queue_of (srvMessagesToSend s') j
                = queue_of (srvMessagesToSend s) j
                  @ map Message_copy (if known s j then sent_to j e else []))"
proof -
  consider (one) "e = ServerSendTo m i" | (arr) "e = ServerSendToArray m ids" | (all) "e = ServerSendToAll m"
    using e by blast
  then show ?thesis
  proof cases
    case one
    show ?thesis
    proof (cases "known s i")
      case True
      then have "s' = s\<lparr>srvMessagesToSend := queue_push i m (srvMessagesToSend s)\<rparr>"
        using run by (auto simp: s'_def one Server_sendTo_def known_def)
      then show ?thesis using True by (simp add: one queue_of_queue_push)
    next
      case False
      then have "s' = s"
        using run by (simp add: s'_def one Server_sendTo_def known_def)
      then show ?thesis using False by (simp add: one)
    qed
  next
    case arr
    have "s' = s\<lparr>srvMessagesToSend :=
                   fold (\<lambda>k. queue_push k m) (filter (known s) ids) (srvMessagesToSend s)\<rparr>"
      using run by (simp add: s'_def arr Server_sendToArray_def Server_sendToArray_loop_eq)
    then show ?thesis
      by (simp add: arr queue_of_fold_queue_push count_list_filter map_replicate)
  next
    case all
    have "s' = s\<lparr>srvMessagesToSend :=
                   fold (\<lambda>k. queue_push k m) (map fst (clients s)) (srvMessagesToSend s)\<rparr>"
      using run by (simp add: s'_def all Server_sendToAll_def Server_sendToAll_loop_eq)
    then show ?thesis
      using dis by (simp add: all queue_of_fold_queue_push count_list_keys known_iff)
  qed
qed


text \<open>
  In every state that a server reaches from its constructor, only a client of the table
  has messages queued for it.
\<close>

lemma queues_step:
  assumes dis: "distinct (map fst (clients s))"
    and inv: "\<And>i. known s i \<or> queue_of (srvMessagesToSend s) i = []"
  shows "known (snd (step e s)) i \<or> queue_of (srvMessagesToSend (snd (step e s))) i = []"
proof (cases e)
  case (Accept clientSocket)
  show ?thesis
    using inv [of i] Accept
    by (auto simp: acceptorLoop_accept_def Let_def known_iff set_map_assign queue_of_def)
next
  case (Remove clientID)
  show ?thesis
    using inv [of i] Remove
    by (auto simp: remove_client_def known_iff map_erase_def queue_of_def)
next
  case Update
  show ?thesis
    using inv [of i] Update by (auto simp: Server_update_def known_def Let_def)
next
  case (SendTo m k)
  show ?thesis
  proof (cases "isRunning s")
    case True
    from Server_send_queues [OF True dis, of "ServerSendTo m k" m k _ "snd (Server_sendTo m k s)"]
    have u: "snd (Server_sendTo m k s)
               = s\<lparr>srvMessagesToSend := srvMessagesToSend (snd (Server_sendTo m k s))\<rparr>"
      and q: "queue_of (srvMessagesToSend (snd (Server_sendTo m k s))) i
                = queue_of (srvMessagesToSend s) i
                  @ map Message_copy (if known s i then sent_to i (ServerSendTo m k) else [])"
      by simp_all
    have "clients (snd (Server_sendTo m k s)) = clients s" by (subst u) simp
    then have "known (snd (Server_sendTo m k s)) i = known s i" by (simp add: known_def)
    then show ?thesis using inv [of i] SendTo q by auto
  next
    case False
    then show ?thesis using inv [of i] SendTo by (simp add: Server_sendTo_def)
  qed
next
  case (SendToArray m ids)
  show ?thesis
  proof (cases "isRunning s")
    case True
    from Server_send_queues [OF True dis, of "ServerSendToArray m ids" m _ ids
        "snd (Server_sendToArray m ids s)"]
    have u: "snd (Server_sendToArray m ids s)
               = s\<lparr>srvMessagesToSend := srvMessagesToSend (snd (Server_sendToArray m ids s))\<rparr>"
      and q: "queue_of (srvMessagesToSend (snd (Server_sendToArray m ids s))) i
                = queue_of (srvMessagesToSend s) i
                  @ map Message_copy (if known s i then sent_to i (ServerSendToArray m ids) else [])"
      by simp_all
    have "clients (snd (Server_sendToArray m ids s)) = clients s" by (subst u) simp
    then have "known (snd (Server_sendToArray m ids s)) i = known s i" by (simp add: known_def)
    then show ?thesis using inv [of i] SendToArray q by auto
  next
    case False
    then show ?thesis using inv [of i] SendToArray by (simp add: Server_sendToArray_def)
  qed
next
  case (SendToAll m)
  show ?thesis
  proof (cases "isRunning s")
    case True
    from Server_send_queues [OF True dis, of "ServerSendToAll m" m _ _ "snd (Server_sendToAll m s)"]
    have u: "snd (Server_sendToAll m s)
               = s\<lparr>srvMessagesToSend := srvMessagesToSend (snd (Server_sendToAll m s))\<rparr>"
      and q: "queue_of (srvMessagesToSend (snd (Server_sendToAll m s))) i
                = queue_of (srvMessagesToSend s) i
                  @ map Message_copy (if known s i then sent_to i (ServerSendToAll m) else [])"
      by simp_all
    have "clients (snd (Server_sendToAll m s)) = clients s" by (subst u) simp
    then have "known (snd (Server_sendToAll m s)) i = known s i" by (simp add: known_def)
    then show ?thesis using inv [of i] SendToAll q by auto
  next
    case False
    then show ?thesis using inv [of i] SendToAll by (simp add: Server_sendToAll_def)
  qed
qed

lemma queues_run:
  "sorted (map fst (clients s)) \<Longrightarrow> distinct (map fst (clients s)) \<Longrightarrow>
   (\<And>i. known s i \<or> queue_of (srvMessagesToSend s) i = []) \<Longrightarrow>
   known (snd (run evs s)) i \<or> queue_of (srvMessagesToSend (snd (run evs s))) i = []"
proof (induction evs arbitrary: s)
  case Nil
  then show ?case by simp
next
  case (Cons e evs)
  have c: "sorted (map fst (clients (snd (step e s))))" "distinct (map fst (clients (snd (step e s))))"
    using clients_step [OF Cons.prems(1,2), of e] by simp_all
  have "known (snd (step e s)) j \<or> queue_of (srvMessagesToSend (snd (step e s))) j = []" for j
    by (rule queues_step [OF Cons.prems(2,3)])
  from Cons.IH [OF c this] show ?case
    by (simp only: snd_run_Cons)
qed

lemma queues_from_start:
  "known (snd (run evs (Server :: 'cb server))) i \<or>
   queue_of (srvMessagesToSend (snd (run evs (Server :: 'cb server)))) i = []"
  by (rule queues_run) (simp_all add: Server_def queue_of_def)










end
